theory Spec2Isabelle
  imports Main
begin

section \<open>LibCurlHttpContentFetcher: data model\<close>

text \<open>
  The embedding follows \<^verbatim>\<open>LibCurlHttpContentFetcher.cpp\<close>. The collaborators of the
  class (libcurl, the attachment writer, the owner's thread) are not part of the
  source; what they answer is an input of the model:
  \<^item> the writer behind \<^verbatim>\<open>m_streamWriter\<close> answers each \<^verbatim>\<open>write\<close> call with a
    \<open>WriteResponse\<close>; a delivery carries the list of answers it will get;
  \<^item> libcurl answers each configuration call through a \<open>CurlEnv\<close> and each round of
    the transfer loop through an \<open>Iteration\<close>;
  \<^item> the destructor, which runs on the owner's thread, appears as an event.
  A list of answers is finite, while both loops of the source can spin forever (a
  writer that always times out, a live stream). A loop that wants another answer when
  the list is used up yields \<open>None\<close>: the run is not described to its end.
  Logging has no effect on the modelled state and is left out, and so are
  \<^verbatim>\<open>addHandle\<close> and \<^verbatim>\<open>removeHandle\<close> on the multi handle, which is local to the
  thread.
\<close>

text \<open>\<^verbatim>\<open>AttachmentWriter::WriteStatus\<close>. A C++ enum can hold a value that is none of its
  enumerators; \<open>UNRECOGNIZED\<close> stands for those, which is what falls out of the
  \<^verbatim>\<open>switch\<close> in \<^verbatim>\<open>bodyCallback\<close>.\<close>

datatype WriteStatus =
    OK
  | CLOSED
  | OK_BUFFER_FULL
  | ERROR_BYTES_LESS_THAN_WORD_SIZE
  | ERROR_INTERNAL
  | TIMEDOUT
  | UNRECOGNIZED int

text \<open>What one call of \<^verbatim>\<open>streamWriter->write\<close> answers: the returned count, the status
  stored through \<^verbatim>\<open>&writeStatus\<close>, and whether the owner's destructor stored its two
  flags while the (blocking) call was under way.\<close>

record WriteResponse =
  numBytesWritten :: nat
  writeStatus :: WriteStatus
  destroyedMeanwhile :: bool

datatype CURLcode = CURLE_OK | CURLE_FAILED int

datatype CURLMcode = CURLM_CALL_MULTI_PERFORM | CURLM_OK | CURLM_FAILED int

datatype FetchOptions = CONTENT_TYPE | ENTIRE_BODY | OTHER_OPTION int

text \<open>The writer a caller hands in, or the one made from a fresh
  \<^verbatim>\<open>InProcessAttachment\<close> whose identifier is the url.\<close>

datatype AttachmentWriter = SuppliedWriter nat | LocalWriter string

text \<open>The function registered with \<^verbatim>\<open>CURLOPT_WRITEFUNCTION\<close>.\<close>

datatype WriteFunction = NoopCallback | BodyCallback

text \<open>The options \<^verbatim>\<open>getContent\<close> sets on \<^verbatim>\<open>m_curlWrapper\<close>.\<close>

datatype CurlOption =
    URL string
  | FOLLOWLOCATION
  | AUTOREFERER
  | COOKIEFILE
  | CONNECTTIMEOUT
  | USERAGENT

text \<open>The lambda handed to \<^verbatim>\<open>std::thread\<close>; the body thread captures
  \<^verbatim>\<open>writerWasCreatedLocally\<close>.\<close>

datatype ThreadBody = ContentTypeThread | EntireBodyThread bool

text \<open>
  The object. A promise is the list of the values passed to its \<^verbatim>\<open>set_value\<close>, in
  order: fulfilled exactly once is a list of length one. \<open>sinkWrites\<close> and
  \<open>sinkCloseCalls\<close> are the history of the calls made on \<^verbatim>\<open>*m_streamWriter\<close>: for
  each \<^verbatim>\<open>write\<close> the span passed and the count answered, and the number of
  \<^verbatim>\<open>close\<close> calls.
\<close>

record LibCurlHttpContentFetcher =
  m_url :: string
  m_hasObjectBeenUsed :: bool
  m_curlWrapper :: "CurlOption list"
  writeFunction :: "WriteFunction option"
  headerFunction :: bool
  futuresTaken :: bool
  m_statusCodePromise :: "int list"
  m_contentTypePromise :: "string list"
  m_streamWriter :: "AttachmentWriter option"
  m_lastStatusCode :: int
  m_lastContentType :: string
  m_done :: bool
  m_isShutdown :: bool
  m_thread :: "ThreadBody option"
  sinkWrites :: "(string \<times> nat) list"
  sinkCloseCalls :: nat

text \<open>The constructor.\<close>

definition newFetcher :: "string \<Rightarrow> LibCurlHttpContentFetcher" where
  "newFetcher url =
     \<lparr> m_url = url, m_hasObjectBeenUsed = False, m_curlWrapper = [],
       writeFunction = None, headerFunction = False, futuresTaken = False,
       m_statusCodePromise = [], m_contentTypePromise = [],
       m_streamWriter = None, m_lastStatusCode = 0, m_lastContentType = [],
       m_done = False, m_isShutdown = False, m_thread = None,
       sinkWrites = [], sinkCloseCalls = 0 \<rparr>"

text \<open>The destructor up to its \<^verbatim>\<open>join\<close>: with a joinable thread it stores both flags.\<close>

definition destructorSignal :: "LibCurlHttpContentFetcher \<Rightarrow> LibCurlHttpContentFetcher" where
  "destructorSignal s =
     (if m_thread s \<noteq> None then s\<lparr>m_done := True, m_isShutdown := True\<rparr> else s)"

section \<open>bodyCallback\<close>

text \<open>
  The \<^verbatim>\<open>while\<close> loop of \<^verbatim>\<open>bodyCallback\<close>. \<open>dat\<close> is the chunk of
  \<^verbatim>\<open>size * nmemb\<close> bytes and \<open>tbw\<close> is \<^verbatim>\<open>totalBytesWritten\<close>; the pointer
  \<^verbatim>\<open>data\<close> has been advanced by \<open>tbw\<close>, so the span passed to \<^verbatim>\<open>write\<close> is
  \<open>drop tbw dat\<close>. The result is the value returned and the object afterwards.
\<close>

fun writeLoop ::
  "string \<Rightarrow> nat \<Rightarrow> WriteResponse list \<Rightarrow> LibCurlHttpContentFetcher
     \<Rightarrow> (nat \<times> LibCurlHttpContentFetcher) option" where
  "writeLoop dat tbw [] s =
     (if tbw < length dat \<and> \<not> m_done s then None else Some (tbw, s))"
| "writeLoop dat tbw (r # rs) s =
     (if tbw < length dat \<and> \<not> m_done s then
        (let s1 = s\<lparr>sinkWrites := sinkWrites s @ [(drop tbw dat, numBytesWritten r)]\<rparr>;
             s2 = (if destroyedMeanwhile r then destructorSignal s1 else s1);
             tbw' = tbw + numBytesWritten r
         in case writeStatus r of
              CLOSED \<Rightarrow> Some (tbw', s2)
            | ERROR_BYTES_LESS_THAN_WORD_SIZE \<Rightarrow> Some (tbw', s2)
            | ERROR_INTERNAL \<Rightarrow> Some (tbw', s2)
            | TIMEDOUT \<Rightarrow> writeLoop dat tbw' rs s2
            | OK \<Rightarrow> writeLoop dat tbw' rs s2
            | OK_BUFFER_FULL \<Rightarrow> Some (0, s2)
            | UNRECOGNIZED _ \<Rightarrow> Some (0, s2))
      else Some (tbw, s))"

text \<open>\<^verbatim>\<open>bodyCallback\<close>: \<open>userData\<close> is \<open>None\<close> for a null pointer.\<close>

definition bodyCallback ::
  "string \<Rightarrow> WriteResponse list \<Rightarrow> LibCurlHttpContentFetcher option
     \<Rightarrow> (nat \<times> LibCurlHttpContentFetcher option) option" where
  "bodyCallback dat rs userData =
     (case userData of
        None \<Rightarrow> Some (0, None)
      | Some thisObject \<Rightarrow>
          if m_done thisObject then Some (0, Some thisObject)
          else if m_streamWriter thisObject \<noteq> None then
            (case writeLoop dat 0 rs thisObject of
               None \<Rightarrow> None
             | Some (n, s) \<Rightarrow> Some (n, Some s))
          else Some (0, Some thisObject))"

text \<open>\<^verbatim>\<open>noopCallback\<close>.\<close>

definition noopCallback :: "string \<Rightarrow> LibCurlHttpContentFetcher option \<Rightarrow> nat" where
  "noopCallback dat userData = 0"

section \<open>headerCallback\<close>

text \<open>\<^verbatim>\<open>::tolower\<close> in the "C" locale: the letters A to Z go to a to z, every other
  character stays.\<close>

definition tolower :: "char \<Rightarrow> char" where
  "tolower c =
     (case map_of (zip ''ABCDEFGHIJKLMNOPQRSTUVWXYZ'' ''abcdefghijklmnopqrstuvwxyz'') c of
        Some l \<Rightarrow> l
      | None \<Rightarrow> c)"

text \<open>The white space a formatted extraction skips (\<^verbatim>\<open>isspace\<close> in the "C" locale):
  space, tab, line feed, vertical tab, form feed, carriage return.\<close>

definition isspace :: "char \<Rightarrow> bool" where
  "isspace c = (c \<in> set [CHR '' '', CHR 0x09, CHR 0x0A, CHR 0x0B, CHR 0x0C, CHR 0x0D])"

definition isdigit :: "char \<Rightarrow> bool" where
  "isdigit c = (c \<in> set ''0123456789'')"

definition digitValue :: "char \<Rightarrow> nat" where
  "digitValue c =
     (case map_of (zip ''0123456789'' [0, 1, 2, 3, 4, 5, 6, 7, 8, 9]) c of
        Some d \<Rightarrow> d
      | None \<Rightarrow> 0)"

text \<open>The value of a run of decimal digits.\<close>

definition decimal :: "string \<Rightarrow> nat" where
  "decimal ds = foldl (\<lambda>a c. 10 * a + digitValue c) 0 ds"

text \<open>\<^verbatim>\<open>long\<close> is taken as 64 bits wide (LP64).\<close>

definition LONG_MAX :: int where
  "LONG_MAX = 9223372036854775807"

definition LONG_MIN :: int where
  "LONG_MIN = - 9223372036854775808"

text \<open>\<^verbatim>\<open>iss >> str\<close> for a \<^verbatim>\<open>std::string\<close>: skip white space, take characters up to
  the next white space. The result is the token and what is left of the stream; a
  stream with nothing but white space leaves the (empty) string as it was.\<close>

definition extractString :: "string \<Rightarrow> string \<times> string" where
  "extractString buf =
     (let b = dropWhile isspace buf
      in (takeWhile (\<lambda>c. \<not> isspace c) b, dropWhile (\<lambda>c. \<not> isspace c) b))"

text \<open>What \<^verbatim>\<open>num_get\<close> makes of the characters at the head of the stream for a
  \<^verbatim>\<open>long\<close> in base ten: an optional sign and the digits that follow; no digit gives 0,
  a value out of range gives the nearest bound.\<close>

definition numGetLong :: "string \<Rightarrow> int" where
  "numGetLong b =
     (let negative = (take 1 b = ''-'');
          b1 = (if take 1 b = ''-'' \<or> take 1 b = ''+'' then drop 1 b else b);
          ds = takeWhile isdigit b1;
          v = (if negative then - int (decimal ds) else int (decimal ds))
      in if ds = [] then 0 else max LONG_MIN (min LONG_MAX v))"

text \<open>\<^verbatim>\<open>iss >> statusCode\<close> for the uninitialised \<^verbatim>\<open>long statusCode\<close>: when the
  stream ends before a character that is not white space, nothing is stored and the
  variable keeps the indeterminate value \<open>garbage\<close> it had.\<close>

definition extractLong :: "int \<Rightarrow> string \<Rightarrow> int" where
  "extractLong garbage buf =
     (let b = dropWhile isspace buf in if b = [] then garbage else numGetLong b)"

text \<open>\<^verbatim>\<open>line.find(p) == 0\<close>.\<close>

definition beginsWith :: "string \<Rightarrow> string \<Rightarrow> bool" where
  "beginsWith p line = (take (length p) line = p)"

text \<open>\<^verbatim>\<open>headerCallback\<close>. \<open>dat\<close> holds the \<^verbatim>\<open>size * nmemb\<close> bytes of the line,
  \<open>garbage\<close> is the indeterminate value of the local \<^verbatim>\<open>statusCode\<close>.\<close>

definition headerCallback ::
  "int \<Rightarrow> string \<Rightarrow> LibCurlHttpContentFetcher option
     \<Rightarrow> nat \<times> LibCurlHttpContentFetcher option" where
  "headerCallback garbage dat userData =
     (case userData of
        None \<Rightarrow> (0, None)
      | Some thisObject \<Rightarrow>
          (let line = map tolower dat in
           if beginsWith ''http'' line then
             (let statusCode = extractLong garbage (snd (extractString line))
              in (length dat, Some (thisObject\<lparr>m_lastStatusCode := statusCode\<rparr>)))
           else if beginsWith ''content-type'' line then
             (let contentType = fst (extractString (snd (extractString line)));
                  contentType' = takeWhile (\<lambda>c. c \<noteq> CHR '';'') contentType
              in (length dat, Some (thisObject\<lparr>m_lastContentType := contentType'\<rparr>)))
           else (length dat, Some thisObject)))"

section \<open>getContent\<close>

text \<open>What libcurl and the attachment answer to the calls of \<^verbatim>\<open>getContent\<close>, in the
  order of the source. \<open>createWriter_ok\<close> says whether \<^verbatim>\<open>stream->createWriter\<close> gives
  a writer.\<close>

record CurlEnv =
  setURL_ok :: bool
  followLocation_rc :: CURLcode
  autoReferer_rc :: CURLcode
  cookieFile_rc :: CURLcode
  setConnectionTimeout_ok :: bool
  userAgent_rc :: CURLcode
  writeFunction_rc :: CURLcode
  createWriter_ok :: bool
  setWriteCallback_ok :: bool
  setHeaderCallback_ok :: bool

text \<open>Every failure of \<^verbatim>\<open>getContent\<close> returns \<^verbatim>\<open>nullptr\<close>; the error value names the
  branch taken, after the reason the source logs there.\<close>

datatype GetContentError =
    AlreadyUsed
  | FailedToSetUrl
  | EnableFollowRedirectsFailed
  | EnableAutoReferralSettingToRedirectsFailed
  | EnableLibCurlCookieEngineFailed
  | SetConnectionTimeoutFailed
  | SetUserAgentFailed
  | FailedToSetCurlCallback
  | FailedToCreateWriter
  | FailedToSetCurlBodyCallback
  | FailedToSetCurlHeaderCallback
  | DefaultBranch

text \<open>The \<^verbatim>\<open>HTTPContent\<close> returned: the two futures read the promises of the object;
  \<open>stream\<close> is the identifier of the local attachment, \<open>None\<close> for \<^verbatim>\<open>nullptr\<close>.\<close>

record HTTPContent =
  stream :: "string option"

definition setopt :: "CurlOption \<Rightarrow> LibCurlHttpContentFetcher \<Rightarrow> LibCurlHttpContentFetcher" where
  "setopt opt s = s\<lparr>m_curlWrapper := m_curlWrapper s @ [opt]\<rparr>"

text \<open>The \<^verbatim>\<open>switch (fetchOption)\<close> of \<^verbatim>\<open>getContent\<close>, reached once the transport is
  configured and the futures are taken.\<close>

definition selectMode ::
  "CurlEnv \<Rightarrow> FetchOptions \<Rightarrow> AttachmentWriter option \<Rightarrow> LibCurlHttpContentFetcher
     \<Rightarrow> (GetContentError + HTTPContent) \<times> LibCurlHttpContentFetcher" where
  "selectMode env fetchOption writer s =
     (case fetchOption of
        CONTENT_TYPE \<Rightarrow>
          if writeFunction_rc env \<noteq> CURLE_OK then (Inl FailedToSetCurlCallback, s)
          else (Inr \<lparr>stream = None\<rparr>,
                s\<lparr>writeFunction := Some NoopCallback, m_thread := Some ContentTypeThread\<rparr>)
      | ENTIRE_BODY \<Rightarrow>
          (let stream' = (if writer = None then Some (m_url s) else None);
               writer' = (if writer = None
                          then (if createWriter_ok env then Some (LocalWriter (m_url s)) else None)
                          else writer);
               writerWasCreatedLocally = (writer = None);
               s1 = s\<lparr>m_streamWriter := writer'\<rparr>
           in if m_streamWriter s1 = None then (Inl FailedToCreateWriter, s1)
              else if \<not> setWriteCallback_ok env then (Inl FailedToSetCurlBodyCallback, s1)
              else if \<not> setHeaderCallback_ok env then
                (Inl FailedToSetCurlHeaderCallback, s1\<lparr>writeFunction := Some BodyCallback\<rparr>)
              else (Inr \<lparr>stream = stream'\<rparr>,
                    s1\<lparr>writeFunction := Some BodyCallback, headerFunction := True,
                       m_thread := Some (EntireBodyThread writerWasCreatedLocally)\<rparr>))
      | OTHER_OPTION _ \<Rightarrow> (Inl DefaultBranch, s))"

text \<open>\<^verbatim>\<open>getContent\<close>. \<^verbatim>\<open>test_and_set\<close> stores \<open>True\<close> and answers the value before.\<close>

definition getContent ::
  "CurlEnv \<Rightarrow> FetchOptions \<Rightarrow> AttachmentWriter option \<Rightarrow> LibCurlHttpContentFetcher
     \<Rightarrow> (GetContentError + HTTPContent) \<times> LibCurlHttpContentFetcher" where
  "getContent env fetchOption writer s =
     (if m_hasObjectBeenUsed s then (Inl AlreadyUsed, s)
      else
        (let s0 = s\<lparr>m_hasObjectBeenUsed := True\<rparr> in
         if \<not> setURL_ok env then (Inl FailedToSetUrl, s0)
         else let s1 = setopt (URL (m_url s0)) s0 in
         if followLocation_rc env \<noteq> CURLE_OK then (Inl EnableFollowRedirectsFailed, s1)
         else let s2 = setopt FOLLOWLOCATION s1 in
         if autoReferer_rc env \<noteq> CURLE_OK
         then (Inl EnableAutoReferralSettingToRedirectsFailed, s2)
         else let s3 = setopt AUTOREFERER s2 in
         if cookieFile_rc env \<noteq> CURLE_OK then (Inl EnableLibCurlCookieEngineFailed, s3)
         else let s4 = setopt COOKIEFILE s3 in
         if \<not> setConnectionTimeout_ok env then (Inl SetConnectionTimeoutFailed, s4)
         else let s5 = setopt CONNECTTIMEOUT s4 in
         if userAgent_rc env \<noteq> CURLE_OK then (Inl SetUserAgentFailed, s5)
         else let s6 = setopt USERAGENT s5;
                  s7 = s6\<lparr>futuresTaken := True\<rparr>
              in selectMode env fetchOption writer s7))"

section \<open>The background thread\<close>

text \<open>What \<^verbatim>\<open>curlMultiHandle->perform\<close> does to the object while it runs: it hands a
  header line to the header function (with the indeterminate value the local
  \<^verbatim>\<open>statusCode\<close> will hold), a body chunk to the write function (with the answers the
  writer will give during that delivery), and meanwhile the owner may destroy the
  object. The count a callback returns goes back to libcurl.\<close>

datatype Delivery =
    HeaderLine string int
  | BodyChunk string "WriteResponse list"
  | DestructorRuns

fun deliver :: "Delivery \<Rightarrow> LibCurlHttpContentFetcher \<Rightarrow> LibCurlHttpContentFetcher option" where
  "deliver (HeaderLine line garbage) s =
     (if headerFunction s
      then (case snd (headerCallback garbage line (Some s)) of
              None \<Rightarrow> Some s
            | Some s' \<Rightarrow> Some s')
      else Some s)"
| "deliver (BodyChunk dat rs) s =
     (case writeFunction s of
        None \<Rightarrow> Some s
      | Some NoopCallback \<Rightarrow> (let n = noopCallback dat None in Some s)
      | Some BodyCallback \<Rightarrow>
          (case bodyCallback dat rs (Some s) of
             None \<Rightarrow> None
           | Some (_, None) \<Rightarrow> Some s
           | Some (_, Some s') \<Rightarrow> Some s'))"
| "deliver DestructorRuns s = Some (destructorSignal s)"

fun deliverAll ::
  "Delivery list \<Rightarrow> LibCurlHttpContentFetcher \<Rightarrow> LibCurlHttpContentFetcher option" where
  "deliverAll [] s = Some s"
| "deliverAll (d # ds) s =
     (case deliver d s of None \<Rightarrow> None | Some s' \<Rightarrow> deliverAll ds s')"

text \<open>One round of the transfer loop, as libcurl answers it: the result of
  \<^verbatim>\<open>perform\<close>, the value it leaves in \<^verbatim>\<open>numTransfersLeft\<close> and what it delivers; the
  result of each \<^verbatim>\<open>curl_easy_getinfo\<close> with the value its output variable holds
  afterwards (\<open>None\<close> for a null \<^verbatim>\<open>char*\<close>); the result of \<^verbatim>\<open>wait\<close>; and whether
  the owner destroys the object before the loop tests \<^verbatim>\<open>m_isShutdown\<close> again.\<close>

record Iteration =
  performResult :: CURLMcode
  transfersLeft :: int
  deliveries :: "Delivery list"
  responseCode :: "CURLcode \<times> int"
  contentTypeInfo :: "CURLcode \<times> string option"
  waitResult :: CURLMcode
  destroyedBeforeNextTest :: bool

definition endOfRound :: "Iteration \<Rightarrow> LibCurlHttpContentFetcher \<Rightarrow> LibCurlHttpContentFetcher" where
  "endOfRound it s = (if destroyedBeforeNextTest it then destructorSignal s else s)"

text \<open>The loop of the \<^verbatim>\<open>CONTENT_TYPE\<close> thread. \<open>rs\<close> and \<open>re\<close> are
  \<^verbatim>\<open>REDIRECTION_START_CODE\<close> and \<^verbatim>\<open>REDIRECTION_END_CODE\<close> of
  \<^verbatim>\<open>HttpResponseCodes.h\<close>, which is not among the sources. The result is
  \<^verbatim>\<open>finalResponseCode\<close>, \<^verbatim>\<open>contentType\<close> and the object at the exit of the loop.\<close>

fun contentTypeLoop ::
  "int \<Rightarrow> int \<Rightarrow> Iteration list \<Rightarrow> int \<Rightarrow> int \<Rightarrow> string option \<Rightarrow> LibCurlHttpContentFetcher
     \<Rightarrow> (int \<times> string option \<times> LibCurlHttpContentFetcher) option" where
  "contentTypeLoop rs re [] numTransfersLeft finalResponseCode contentType s =
     (if numTransfersLeft \<noteq> 0 \<and> \<not> m_isShutdown s then None
      else Some (finalResponseCode, contentType, s))"
| "contentTypeLoop rs re (it # its) numTransfersLeft finalResponseCode contentType s =
     (if numTransfersLeft \<noteq> 0 \<and> \<not> m_isShutdown s then
        (case deliverAll (deliveries it) s of
           None \<Rightarrow> None
         | Some s1 \<Rightarrow>
             if performResult it = CURLM_CALL_MULTI_PERFORM then
               contentTypeLoop rs re its (transfersLeft it) finalResponseCode contentType
                 (endOfRound it s1)
             else if performResult it \<noteq> CURLM_OK then
               Some (finalResponseCode, contentType, s1)
             else if fst (responseCode it) \<noteq> CURLE_OK then
               Some (snd (responseCode it), contentType, s1)
             else if snd (responseCode it) \<noteq> 0 \<and>
                     (snd (responseCode it) < rs \<or> snd (responseCode it) > re) then
               Some (snd (responseCode it), snd (contentTypeInfo it), s1)
             else if waitResult it \<noteq> CURLM_OK then
               Some (snd (responseCode it), contentType, s1)
             else
               contentTypeLoop rs re its (transfersLeft it) (snd (responseCode it)) contentType
                 (endOfRound it s1))
      else Some (finalResponseCode, contentType, s))"

text \<open>The lambda of the \<^verbatim>\<open>CONTENT_TYPE\<close> thread; \<open>multiHandle_ok\<close> says whether
  \<^verbatim>\<open>CurlMultiHandleWrapper::create\<close> gives a handle.\<close>

definition contentTypeThread ::
  "int \<Rightarrow> int \<Rightarrow> bool \<Rightarrow> Iteration list \<Rightarrow> LibCurlHttpContentFetcher
     \<Rightarrow> LibCurlHttpContentFetcher option" where
  "contentTypeThread rs re multiHandle_ok its s =
     (if \<not> multiHandle_ok then
        Some (s\<lparr>m_statusCodePromise := m_statusCodePromise s @ [0],
                m_contentTypePromise := m_contentTypePromise s @ ['''']\<rparr>)
      else
        (case contentTypeLoop rs re its 1 0 None s of
           None \<Rightarrow> None
         | Some (finalResponseCode, contentType, s1) \<Rightarrow>
             Some (s1\<lparr>m_statusCodePromise := m_statusCodePromise s1 @ [finalResponseCode],
                      m_contentTypePromise := m_contentTypePromise s1 @
                        [case contentType of Some c \<Rightarrow> c | None \<Rightarrow> []]\<rparr>)))"

text \<open>The loop of the \<^verbatim>\<open>ENTIRE_BODY\<close> thread.\<close>

fun entireBodyLoop ::
  "Iteration list \<Rightarrow> int \<Rightarrow> LibCurlHttpContentFetcher \<Rightarrow> LibCurlHttpContentFetcher option" where
  "entireBodyLoop [] numTransfersLeft s =
     (if numTransfersLeft \<noteq> 0 \<and> \<not> m_isShutdown s then None else Some s)"
| "entireBodyLoop (it # its) numTransfersLeft s =
     (if numTransfersLeft \<noteq> 0 \<and> \<not> m_isShutdown s then
        (case deliverAll (deliveries it) s of
           None \<Rightarrow> None
         | Some s1 \<Rightarrow>
             if performResult it = CURLM_CALL_MULTI_PERFORM then
               entireBodyLoop its (transfersLeft it) (endOfRound it s1)
             else if performResult it \<noteq> CURLM_OK then Some s1
             else if waitResult it \<noteq> CURLM_OK then Some s1
             else entireBodyLoop its (transfersLeft it) (endOfRound it s1))
      else Some s)"

text \<open>The lambda of the \<^verbatim>\<open>ENTIRE_BODY\<close> thread. \<^verbatim>\<open>getContent\<close> starts it only with a
  writer in \<^verbatim>\<open>m_streamWriter\<close>, so \<^verbatim>\<open>close\<close> has an object to be called on.\<close>

definition entireBodyThread ::
  "bool \<Rightarrow> bool \<Rightarrow> Iteration list \<Rightarrow> LibCurlHttpContentFetcher
     \<Rightarrow> LibCurlHttpContentFetcher option" where
  "entireBodyThread writerWasCreatedLocally multiHandle_ok its s =
     (if \<not> multiHandle_ok then
        Some (s\<lparr>m_statusCodePromise := m_statusCodePromise s @ [0],
                m_contentTypePromise := m_contentTypePromise s @ ['''']\<rparr>)
      else
        (case entireBodyLoop its 1 s of
           None \<Rightarrow> None
         | Some s1 \<Rightarrow>
             (let s2 = s1\<lparr>m_statusCodePromise := m_statusCodePromise s1 @ [m_lastStatusCode s1],
                          m_contentTypePromise := m_contentTypePromise s1 @ [m_lastContentType s1]\<rparr>;
                  s3 = (if writerWasCreatedLocally
                        then s2\<lparr>sinkCloseCalls := Suc (sinkCloseCalls s2)\<rparr> else s2)
              in Some (s3\<lparr>m_done := True\<rparr>))))"

text \<open>The thread \<^verbatim>\<open>getContent\<close> started, run to its end.\<close>

definition runThread ::
  "int \<Rightarrow> int \<Rightarrow> bool \<Rightarrow> Iteration list \<Rightarrow> LibCurlHttpContentFetcher
     \<Rightarrow> LibCurlHttpContentFetcher option" where
  "runThread rs re multiHandle_ok its s =
     (case m_thread s of
        None \<Rightarrow> Some s
      | Some ContentTypeThread \<Rightarrow> contentTypeThread rs re multiHandle_ok its s
      | Some (EntireBodyThread writerWasCreatedLocally) \<Rightarrow>
          entireBodyThread writerWasCreatedLocally multiHandle_ok its s)"

section \<open>Notions used to state the properties\<close>

text \<open>The spans a run of answers is passed when \<^verbatim>\<open>totalBytesWritten\<close> starts at
  \<open>tbw\<close>: each attempt gets the chunk without the bytes counted so far.\<close>

fun spans :: "string \<Rightarrow> nat \<Rightarrow> WriteResponse list \<Rightarrow> (string \<times> nat) list" where
  "spans dat tbw [] = []"
| "spans dat tbw (r # rs) =
     (drop tbw dat, numBytesWritten r) # spans dat (tbw + numBytesWritten r) rs"

text \<open>The bytes a writer took: of each span it was passed, as many bytes from the
  front as it answered (the whole span when it answered more).\<close>

definition accepted :: "(string \<times> nat) list \<Rightarrow> string" where
  "accepted ws = concat (map (\<lambda>(span, n). take n span) ws)"

definition sumWritten :: "WriteResponse list \<Rightarrow> nat" where
  "sumWritten rs = sum_list (map numBytesWritten rs)"

text \<open>An answer after which the loop goes on, with the owner keeping the object.\<close>

definition goesOn :: "WriteResponse \<Rightarrow> bool" where
  "goesOn r = ((writeStatus r = OK \<or> writeStatus r = TIMEDOUT) \<and> \<not> destroyedMeanwhile r)"

text \<open>The statuses at which \<^verbatim>\<open>bodyCallback\<close> returns the count so far, and those at
  which it returns 0.\<close>

definition stopsDelivery :: "WriteStatus \<Rightarrow> bool" where
  "stopsDelivery st =
     (st = CLOSED \<or> st = ERROR_BYTES_LESS_THAN_WORD_SIZE \<or> st = ERROR_INTERNAL)"

definition abortsDelivery :: "WriteStatus \<Rightarrow> bool" where
  "abortsDelivery st = (case st of OK_BUFFER_FULL \<Rightarrow> True | UNRECOGNIZED _ \<Rightarrow> True | _ \<Rightarrow> False)"

text \<open>The object after the write that \<open>r\<close> answers.\<close>

definition afterWrite ::
  "string \<Rightarrow> nat \<Rightarrow> WriteResponse \<Rightarrow> LibCurlHttpContentFetcher \<Rightarrow> LibCurlHttpContentFetcher" where
  "afterWrite dat tbw r s =
     (let s1 = s\<lparr>sinkWrites := sinkWrites s @ [(drop tbw dat, numBytesWritten r)]\<rparr>
      in if destroyedMeanwhile r then destructorSignal s1 else s1)"

text \<open>A libcurl and an attachment that refuse nothing.\<close>

definition allOk :: CurlEnv where
  "allOk =
     \<lparr> setURL_ok = True, followLocation_rc = CURLE_OK, autoReferer_rc = CURLE_OK,
       cookieFile_rc = CURLE_OK, setConnectionTimeout_ok = True, userAgent_rc = CURLE_OK,
       writeFunction_rc = CURLE_OK, createWriter_ok = True, setWriteCallback_ok = True,
       setHeaderCallback_ok = True \<rparr>"

text \<open>A round in which nothing is delivered and nothing fails.\<close>

definition quietRound :: Iteration where
  "quietRound =
     \<lparr> performResult = CURLM_OK, transfersLeft = 1, deliveries = [],
       responseCode = (CURLE_OK, 0), contentTypeInfo = (CURLE_OK, None),
       waitResult = CURLM_OK, destroyedBeforeNextTest = False \<rparr>"

text \<open>The object after a successful \<^verbatim>\<open>getContent\<close> for the entire body without a
  writer of the caller's, and for the content type only.\<close>

definition bodyFetcher :: "string \<Rightarrow> LibCurlHttpContentFetcher" where
  "bodyFetcher url = snd (getContent allOk ENTIRE_BODY None (newFetcher url))"

definition typeFetcher :: "string \<Rightarrow> LibCurlHttpContentFetcher" where
  "typeFetcher url = snd (getContent allOk CONTENT_TYPE None (newFetcher url))"

definition answer :: "nat \<Rightarrow> WriteStatus \<Rightarrow> WriteResponse" where
  "answer n st = \<lparr> numBytesWritten = n, writeStatus = st, destroyedMeanwhile = False \<rparr>"

text \<open>The six configuration calls before the \<^verbatim>\<open>switch\<close> all succeed.\<close>

definition configured :: "CurlEnv \<Rightarrow> bool" where
  "configured env =
     (setURL_ok env \<and> followLocation_rc env = CURLE_OK \<and> autoReferer_rc env = CURLE_OK \<and>
      cookieFile_rc env = CURLE_OK \<and> setConnectionTimeout_ok env \<and>
      userAgent_rc env = CURLE_OK)"

text \<open>What neither a callback nor the destructor changes.\<close>

definition untouched :: "LibCurlHttpContentFetcher \<Rightarrow> LibCurlHttpContentFetcher \<Rightarrow> bool" where
  "untouched s s' =
     (m_statusCodePromise s' = m_statusCodePromise s \<and>
      m_contentTypePromise s' = m_contentTypePromise s \<and>
      sinkCloseCalls s' = sinkCloseCalls s \<and>
      m_thread s' = m_thread s \<and>
      writeFunction s' = writeFunction s \<and>
      headerFunction s' = headerFunction s \<and>
      m_streamWriter s' = m_streamWriter s)"

text \<open>A header line that \<^verbatim>\<open>headerCallback\<close> reads as a status line, or as a
  content-type line.\<close>

fun isStatusLine :: "Delivery \<Rightarrow> bool" where
  "isStatusLine (HeaderLine line garbage) = beginsWith ''http'' (map tolower line)"
| "isStatusLine _ = False"

fun isContentTypeLine :: "Delivery \<Rightarrow> bool" where
  "isContentTypeLine (HeaderLine line garbage) = beginsWith ''content-type'' (map tolower line)"
| "isContentTypeLine _ = False"

text \<open>The transport never tells a status code during the run: in the
  \<^verbatim>\<open>CONTENT_TYPE\<close> thread every query of the response code leaves 0, in the
  \<^verbatim>\<open>ENTIRE_BODY\<close> thread no status line is delivered. Likewise for the content
  type: every query leaves a null pointer, or no content-type line is delivered.\<close>

definition statusNeverResolved :: "FetchOptions \<Rightarrow> Iteration list \<Rightarrow> bool" where
  "statusNeverResolved opt its =
     (case opt of
        CONTENT_TYPE \<Rightarrow> list_all (\<lambda>it. snd (responseCode it) = 0) its
      | ENTIRE_BODY \<Rightarrow> list_all (\<lambda>it. list_all (\<lambda>d. \<not> isStatusLine d) (deliveries it)) its
      | OTHER_OPTION _ \<Rightarrow> True)"

definition contentTypeNeverResolved :: "FetchOptions \<Rightarrow> Iteration list \<Rightarrow> bool" where
  "contentTypeNeverResolved opt its =
     (case opt of
        CONTENT_TYPE \<Rightarrow> list_all (\<lambda>it. snd (contentTypeInfo it) = None) its
      | ENTIRE_BODY \<Rightarrow> list_all (\<lambda>it. list_all (\<lambda>d. \<not> isContentTypeLine d) (deliveries it)) its
      | OTHER_OPTION _ \<Rightarrow> True)"

text \<open>A round of the \<^verbatim>\<open>CONTENT_TYPE\<close> loop after which the loop runs on: the owner
  keeps the object, a transfer is left, and either \<^verbatim>\<open>perform\<close> asks to be called
  again, or it succeeds, the response code is queried as 0 or as a redirect, and
  \<^verbatim>\<open>wait\<close> succeeds.\<close>

definition passesThrough :: "int \<Rightarrow> int \<Rightarrow> Iteration \<Rightarrow> bool" where
  "passesThrough rs re it =
     (transfersLeft it \<noteq> 0 \<and> \<not> destroyedBeforeNextTest it \<and>
      list_all (\<lambda>d. d \<noteq> DestructorRuns) (deliveries it) \<and>
      (performResult it = CURLM_CALL_MULTI_PERFORM \<or>
       (performResult it = CURLM_OK \<and> fst (responseCode it) = CURLE_OK \<and>
        (snd (responseCode it) = 0 \<or>
         (rs \<le> snd (responseCode it) \<and> snd (responseCode it) \<le> re)) \<and>
        waitResult it = CURLM_OK)))"

text \<open>A round in which the response code is queried as nonzero and outside the
  redirect range.\<close>

definition resolves :: "int \<Rightarrow> int \<Rightarrow> Iteration \<Rightarrow> bool" where
  "resolves rs re it =
     (performResult it = CURLM_OK \<and> fst (responseCode it) = CURLE_OK \<and>
      snd (responseCode it) \<noteq> 0 \<and>
      (snd (responseCode it) < rs \<or> re < snd (responseCode it)))"

text \<open>A round in which the response code is queried as \<open>code\<close> and the content type
  as \<open>ctype\<close>, while libcurl hands over the 5 bytes of a body.\<close>

definition queriedRound :: "int \<Rightarrow> string option \<Rightarrow> Iteration" where
  "queriedRound code ctype =
     quietRound\<lparr> deliveries := [BodyChunk ''hello'' []],
                 responseCode := (CURLE_OK, code), contentTypeInfo := (CURLE_OK, ctype) \<rparr>"

text \<open>The white-space-separated tokens of a line, read from left to right; \<open>w\<close> is
  the token being read.\<close>

fun scanTokens :: "string \<Rightarrow> string \<Rightarrow> string list" where
  "scanTokens w [] = (if w = [] then [] else [w])"
| "scanTokens w (c # cs) =
     (if isspace c then (if w = [] then scanTokens [] cs else w # scanTokens [] cs)
      else scanTokens (w @ [c]) cs)"

definition tokens :: "string \<Rightarrow> string list" where
  "tokens line = scanTokens [] line"

text \<open>The token after the first one, when the line has one.\<close>

definition secondToken :: "string \<Rightarrow> string option" where
  "secondToken line = (case tokens line of _ # v # _ \<Rightarrow> Some v | _ \<Rightarrow> None)"

text \<open>The number the decimal digits at the front of a text spell, after \<open>acc\<close>.\<close>

fun digitsValue :: "nat \<Rightarrow> string \<Rightarrow> nat" where
  "digitsValue acc [] = acc"
| "digitsValue acc (c # cs) =
     (if isdigit c then digitsValue (10 * acc + digitValue c) cs else acc)"

text \<open>The integer a token starts with: an optional sign and the decimal digits after
  it, brought into the range of \<^verbatim>\<open>long\<close>; 0 when no digit stands there.\<close>

definition leadingInteger :: "string \<Rightarrow> int" where
  "leadingInteger w =
     (let signed = (w \<noteq> [] \<and> (hd w = CHR ''-'' \<or> hd w = CHR ''+''));
          body = (if signed then tl w else w);
          v = int (digitsValue 0 body)
      in if body = [] \<or> \<not> isdigit (hd body) then 0
         else max LONG_MIN (min LONG_MAX (if signed \<and> hd w = CHR ''-'' then - v else v)))"

text \<open>A delivery whose answers suffice: for a body chunk the counts answered cover the
  chunk, so the write loop cannot be left waiting for an answer.\<close>

fun answered :: "Delivery \<Rightarrow> bool" where
  "answered (BodyChunk dat rs) = (length dat \<le> sumWritten rs)"
| "answered _ = True"

text \<open>A run of rounds that is told to its end: the last round leaves no transfer, and
  every delivery has the answers it needs.\<close>

definition finished :: "Iteration list \<Rightarrow> bool" where
  "finished its =
     (its \<noteq> [] \<and> transfersLeft (last its) = 0 \<and>
      list_all (\<lambda>it. list_all answered (deliveries it)) its)"

section \<open>Properties of bodyCallback\<close>

text \<open>The definitions a concrete run is evaluated with.\<close>

lemmas eval_defs = bodyFetcher_def typeFetcher_def getContent_def selectMode_def setopt_def
  allOk_def newFetcher_def answer_def bodyCallback_def afterWrite_def destructorSignal_def
  goesOn_def stopsDelivery_def abortsDelivery_def sumWritten_def accepted_def Let_def

lemma writeLoop_goesOn:
  "\<lbrakk>list_all goesOn pre; tbw + sumWritten pre < length dat; \<not> m_done s\<rbrakk> \<Longrightarrow>
   writeLoop dat tbw (pre @ rest) s =
   writeLoop dat (tbw + sumWritten pre) rest (s\<lparr>sinkWrites := sinkWrites s @ spans dat tbw pre\<rparr>)"
proof (induction pre arbitrary: tbw s)
  case Nil
  then show ?case by (simp add: sumWritten_def)
next
  case (Cons r pre)
  from Cons.prems have go: "goesOn r" and rest: "list_all goesOn pre" by simp_all
  from Cons.prems have lt: "tbw < length dat" by (simp add: sumWritten_def)
  let ?s = "s\<lparr>sinkWrites := sinkWrites s @ [(drop tbw dat, numBytesWritten r)]\<rparr>"
  have step: "writeLoop dat tbw ((r # pre) @ rest) s =
      writeLoop dat (tbw + numBytesWritten r) (pre @ rest) ?s"
    using go lt Cons.prems(3) by (auto simp: goesOn_def)
  have "writeLoop dat (tbw + numBytesWritten r) (pre @ rest) ?s =
      writeLoop dat (tbw + numBytesWritten r + sumWritten pre) rest
        (?s\<lparr>sinkWrites := sinkWrites ?s @ spans dat (tbw + numBytesWritten r) pre\<rparr>)"
    using Cons.prems by (intro Cons.IH[OF rest]) (simp_all add: sumWritten_def)
  with step show ?case by (simp add: sumWritten_def add.assoc)
qed

lemma accepted_spans:
  "accepted (spans dat tbw rs) = take (sumWritten rs) (drop tbw dat)"
proof (induction rs arbitrary: tbw)
  case Nil
  then show ?case by (simp add: accepted_def sumWritten_def)
next
  case (Cons r rs)
  have "accepted (spans dat tbw (r # rs)) =
      take (numBytesWritten r) (drop tbw dat) @ accepted (spans dat (tbw + numBytesWritten r) rs)"
    by (simp add: accepted_def)
  also have "\<dots> = take (numBytesWritten r) (drop tbw dat) @
      take (sumWritten rs) (drop (numBytesWritten r) (drop tbw dat))"
    by (simp add: Cons.IH add.commute)
  also have "\<dots> = take (numBytesWritten r + sumWritten rs) (drop tbw dat)"
    by (simp add: take_add)
  finally show ?case by (simp add: sumWritten_def)
qed

lemma writeLoop_step:
  "tbw < length dat \<Longrightarrow> \<not> m_done s \<Longrightarrow>
   writeLoop dat tbw (r # rs) s =
     (if stopsDelivery (writeStatus r) then Some (tbw + numBytesWritten r, afterWrite dat tbw r s)
      else if abortsDelivery (writeStatus r) then Some (0, afterWrite dat tbw r s)
      else writeLoop dat (tbw + numBytesWritten r) rs (afterWrite dat tbw r s))"
  by (cases "writeStatus r")
     (simp_all add: stopsDelivery_def abortsDelivery_def afterWrite_def Let_def)

lemma sinkWrites_afterWrite:
  "sinkWrites (afterWrite dat tbw r s) = sinkWrites s @ [(drop tbw dat, numBytesWritten r)]"
  by (simp add: afterWrite_def destructorSignal_def Let_def)

lemma writeLoop_trace:
  "writeLoop dat tbw rs s = Some (k, s') \<Longrightarrow>
   \<exists>used rest. rs = used @ rest \<and>
     sinkWrites s' = sinkWrites s @ spans dat tbw used \<and>
     (k = tbw + sumWritten used \<or>
      (k = 0 \<and> used \<noteq> [] \<and> abortsDelivery (writeStatus (last used))))"
proof (induction rs arbitrary: tbw s)
  case Nil
  then show ?case by (auto simp: sumWritten_def split: if_splits)
next
  case (Cons r rs)
  show ?case
  proof (cases "tbw < length dat \<and> \<not> m_done s")
    case False
    with Cons.prems have "k = tbw" "s' = s" by auto
    then have "r # rs = [] @ (r # rs) \<and> sinkWrites s' = sinkWrites s @ spans dat tbw [] \<and>
        k = tbw + sumWritten []" by (simp add: sumWritten_def)
    then show ?thesis by blast
  next
    case True
    let ?s2 = "afterWrite dat tbw r s"
    note step = writeLoop_step[of tbw dat s r rs]
    consider (stop) "stopsDelivery (writeStatus r)"
      | (abort) "\<not> stopsDelivery (writeStatus r)" "abortsDelivery (writeStatus r)"
      | (on) "\<not> stopsDelivery (writeStatus r)" "\<not> abortsDelivery (writeStatus r)"
      by blast
    then show ?thesis
    proof cases
      case stop
      with step True Cons.prems have "k = tbw + numBytesWritten r" "s' = ?s2" by simp_all
      then have "r # rs = [r] @ rs \<and> sinkWrites s' = sinkWrites s @ spans dat tbw [r] \<and>
          k = tbw + sumWritten [r]"
        by (simp add: sinkWrites_afterWrite sumWritten_def)
      then show ?thesis by blast
    next
      case abort
      with step True Cons.prems have "k = 0" "s' = ?s2" by simp_all
      with abort have "r # rs = [r] @ rs \<and> sinkWrites s' = sinkWrites s @ spans dat tbw [r] \<and>
          k = 0 \<and> [r] \<noteq> [] \<and> abortsDelivery (writeStatus (last [r]))"
        by (simp add: sinkWrites_afterWrite)
      then show ?thesis by blast
    next
      case on
      with step True Cons.prems
      have "writeLoop dat (tbw + numBytesWritten r) rs ?s2 = Some (k, s')" by simp
      from Cons.IH[OF this] obtain used rest where u: "rs = used @ rest"
        "sinkWrites s' = sinkWrites ?s2 @ spans dat (tbw + numBytesWritten r) used"
        "k = tbw + numBytesWritten r + sumWritten used \<or>
          (k = 0 \<and> used \<noteq> [] \<and> abortsDelivery (writeStatus (last used)))"
        by blast
      then have "r # rs = (r # used) @ rest \<and>
          sinkWrites s' = sinkWrites s @ spans dat tbw (r # used) \<and>
          (k = tbw + sumWritten (r # used) \<or>
           (k = 0 \<and> r # used \<noteq> [] \<and> abortsDelivery (writeStatus (last (r # used)))))"
        by (auto simp: sinkWrites_afterWrite sumWritten_def)
      then show ?thesis by blast
    qed
  qed
qed


lemma bodyCallback_running:
  "\<not> m_done s \<Longrightarrow> m_streamWriter s \<noteq> None \<Longrightarrow>
   bodyCallback dat rs (Some s) =
     (case writeLoop dat 0 rs s of None \<Rightarrow> None | Some (n, s') \<Rightarrow> Some (n, Some s'))"
  by (simp add: bodyCallback_def)

lemma spans_append:
  "spans dat tbw (pre @ rs) = spans dat tbw pre @ spans dat (tbw + sumWritten pre) rs"
  by (induction pre arbitrary: tbw) (simp_all add: sumWritten_def add.assoc)

lemma sumWritten_append: "sumWritten (pre @ rs) = sumWritten pre + sumWritten rs"
  by (simp add: sumWritten_def)

text \<open>
  C7. In a delivery whose earlier attempts were answered with OK or timed-out and left
  bytes to write, an attempt answered with closed, size-violation or internal-error
  ends the delivery at once: the value returned is the count written so far, the
  bytes of that attempt included, and the writer has seen exactly the attempts up to
  that one; the answers that would follow are never asked for.
\<close>

theorem C7_closed_or_error_stops:
  assumes "\<not> m_done s" and "m_streamWriter s \<noteq> None"
    and "list_all goesOn pre" and "sumWritten pre < length dat"
    and "stopsDelivery (writeStatus r)"
  shows "\<exists>s'. bodyCallback dat (pre @ r # rest) (Some s) =
           Some (sumWritten pre + numBytesWritten r, Some s') \<and>
         sinkWrites s' = sinkWrites s @ spans dat 0 (pre @ [r])"
proof -
  let ?s1 = "s\<lparr>sinkWrites := sinkWrites s @ spans dat 0 pre\<rparr>"
  have "writeLoop dat 0 (pre @ r # rest) s = writeLoop dat (0 + sumWritten pre) (r # rest) ?s1"
    using assms by (intro writeLoop_goesOn) simp_all
  also have "\<dots> = Some (sumWritten pre + numBytesWritten r, afterWrite dat (sumWritten pre) r ?s1)"
    using assms by (simp add: writeLoop_step del: writeLoop.simps)
  finally have "bodyCallback dat (pre @ r # rest) (Some s) =
      Some (sumWritten pre + numBytesWritten r, Some (afterWrite dat (sumWritten pre) r ?s1))"
    using assms by (simp add: bodyCallback_running)
  moreover have "sinkWrites (afterWrite dat (sumWritten pre) r ?s1) =
      sinkWrites s @ spans dat 0 (pre @ [r])"
    by (simp add: sinkWrites_afterWrite spans_append)
  ultimately show ?thesis by blast
qed

text \<open>The chunk \<open>hello\<close>: two bytes taken, a timeout, then one more byte with
  \<open>CLOSED\<close>. The delivery returns 3 after three attempts.\<close>

theorem C7_closed_or_error_stops_witness:
  "\<not> m_done (bodyFetcher ''u'') \<and> m_streamWriter (bodyFetcher ''u'') \<noteq> None \<and>
   list_all goesOn [answer 2 OK, answer 0 TIMEDOUT] \<and>
   sumWritten [answer 2 OK, answer 0 TIMEDOUT] < length ''hello'' \<and>
   stopsDelivery (writeStatus (answer 1 CLOSED)) \<and>
   (\<exists>s'. bodyCallback ''hello'' ([answer 2 OK, answer 0 TIMEDOUT] @ answer 1 CLOSED # [answer 2 OK])
            (Some (bodyFetcher ''u'')) = Some (3, Some s') \<and>
          sinkWrites s' = [(''hello'', 2), (''llo'', 0), (''llo'', 1)])"
proof -
  have h: "\<not> m_done (bodyFetcher ''u'')" "m_streamWriter (bodyFetcher ''u'') \<noteq> None"
    "list_all goesOn [answer 2 OK, answer 0 TIMEDOUT]"
    "sumWritten [answer 2 OK, answer 0 TIMEDOUT] < length ''hello''"
    "stopsDelivery (writeStatus (answer 1 CLOSED))"
    by (simp_all add: eval_defs)
  have sw: "sinkWrites (bodyFetcher ''u'') = []" by (simp add: eval_defs)
  from C7_closed_or_error_stops[OF h, of "[answer 2 OK]"] sw h show ?thesis
    by (simp add: sumWritten_def answer_def)
qed


text \<open>
  C2 as stated fails: a writer that takes one byte of \<open>ab\<close> and answers
  \<open>OK_BUFFER_FULL\<close>, a status of the documented set, makes the delivery return 0
  after that single attempt; with \<open>OK\<close> in its place the loop goes on to the
  remainder and returns 2.
\<close>

theorem C2_counterexample:
  "bodyCallback ''ab'' [answer 1 OK_BUFFER_FULL, answer 1 OK] (Some (bodyFetcher ''u'')) =
     Some (0, Some ((bodyFetcher ''u'')\<lparr>sinkWrites := [(''ab'', 1)]\<rparr>)) \<and>
   bodyCallback ''ab'' [answer 1 OK, answer 1 OK] (Some (bodyFetcher ''u'')) =
     Some (2, Some ((bodyFetcher ''u'')\<lparr>sinkWrites := [(''ab'', 1), (''b'', 1)]\<rparr>))"
  by (simp add: eval_defs)

text \<open>
  C2, amended. Attempts answered with OK or timed-out advance the loop by the bytes
  they wrote and the loop continues with the remainder of the chunk; when such an
  attempt completes the chunk the delivery returns the whole count. An attempt
  answered with OK-but-full or with a status that is no enumerator makes the delivery
  return 0 at once.
\<close>

theorem C2_write_status_handling:
  assumes "\<not> m_done s" and "m_streamWriter s \<noteq> None"
    and "list_all goesOn pre" and "sumWritten pre < length dat"
  shows "writeLoop dat 0 (pre @ rest) s =
           writeLoop dat (sumWritten pre) rest (s\<lparr>sinkWrites := sinkWrites s @ spans dat 0 pre\<rparr>) \<and>
         (goesOn r \<and> length dat \<le> sumWritten pre + numBytesWritten r \<longrightarrow>
            bodyCallback dat (pre @ r # rest) (Some s) =
              Some (sumWritten pre + numBytesWritten r,
                    Some (s\<lparr>sinkWrites := sinkWrites s @ spans dat 0 (pre @ [r])\<rparr>))) \<and>
         (abortsDelivery (writeStatus r) \<longrightarrow>
            (\<exists>s'. bodyCallback dat (pre @ r # rest) (Some s) = Some (0, Some s') \<and>
                  sinkWrites s' = sinkWrites s @ spans dat 0 (pre @ [r])))"
proof -
  let ?s1 = "s\<lparr>sinkWrites := sinkWrites s @ spans dat 0 pre\<rparr>"
  have go: "\<And>rest. writeLoop dat 0 (pre @ rest) s = writeLoop dat (sumWritten pre) rest ?s1"
    using assms writeLoop_goesOn[of pre 0 dat s] by simp
  have sw: "sinkWrites (afterWrite dat (sumWritten pre) r ?s1) =
      sinkWrites s @ spans dat 0 (pre @ [r])"
    by (simp add: sinkWrites_afterWrite spans_append)
  have st: "writeLoop dat (sumWritten pre) (r # rest) ?s1 =
      (if stopsDelivery (writeStatus r)
       then Some (sumWritten pre + numBytesWritten r, afterWrite dat (sumWritten pre) r ?s1)
       else if abortsDelivery (writeStatus r) then Some (0, afterWrite dat (sumWritten pre) r ?s1)
       else writeLoop dat (sumWritten pre + numBytesWritten r) rest
              (afterWrite dat (sumWritten pre) r ?s1))"
    using assms by (intro writeLoop_step) simp_all
  have full: "bodyCallback dat (pre @ r # rest) (Some s) =
      Some (sumWritten pre + numBytesWritten r,
            Some (s\<lparr>sinkWrites := sinkWrites s @ spans dat 0 (pre @ [r])\<rparr>))"
    if r: "goesOn r" and len: "length dat \<le> sumWritten pre + numBytesWritten r"
  proof -
    from r have aw: "afterWrite dat (sumWritten pre) r ?s1 =
        s\<lparr>sinkWrites := sinkWrites s @ spans dat 0 (pre @ [r])\<rparr>"
      by (simp add: afterWrite_def goesOn_def spans_append)
    from r have ns: "\<not> stopsDelivery (writeStatus r)" "\<not> abortsDelivery (writeStatus r)"
      by (auto simp: goesOn_def stopsDelivery_def abortsDelivery_def)
    have "writeLoop dat (sumWritten pre + numBytesWritten r) rest
            (afterWrite dat (sumWritten pre) r ?s1) =
          Some (sumWritten pre + numBytesWritten r, afterWrite dat (sumWritten pre) r ?s1)"
      using len by (cases rest) simp_all
    with st ns aw go[of "r # rest"] show ?thesis
      using assms(1,2) by (simp add: bodyCallback_running)
  qed
  have abort: "\<exists>s'. bodyCallback dat (pre @ r # rest) (Some s) = Some (0, Some s') \<and>
      sinkWrites s' = sinkWrites s @ spans dat 0 (pre @ [r])"
    if r: "abortsDelivery (writeStatus r)"
  proof -
    from r have ns: "\<not> stopsDelivery (writeStatus r)"
      by (auto simp: stopsDelivery_def abortsDelivery_def)
    with st r go[of "r # rest"]
    have "bodyCallback dat (pre @ r # rest) (Some s) =
        Some (0, Some (afterWrite dat (sumWritten pre) r ?s1))"
      using assms(1,2) by (simp add: bodyCallback_running)
    with sw show ?thesis by blast
  qed
  from go[of rest] full abort show ?thesis by blast
qed

text \<open>The chunk \<open>abc\<close> written as one byte, a timeout, two bytes.\<close>

theorem C2_write_status_handling_witness:
  "\<not> m_done (bodyFetcher ''u'') \<and> m_streamWriter (bodyFetcher ''u'') \<noteq> None \<and>
   list_all goesOn [answer 1 OK, answer 0 TIMEDOUT] \<and>
   sumWritten [answer 1 OK, answer 0 TIMEDOUT] < length ''abc'' \<and>
   goesOn (answer 2 OK) \<and>
   length ''abc'' \<le> sumWritten [answer 1 OK, answer 0 TIMEDOUT] + numBytesWritten (answer 2 OK) \<and>
   bodyCallback ''abc'' ([answer 1 OK, answer 0 TIMEDOUT] @ answer 2 OK # []) (Some (bodyFetcher ''u'')) =
     Some (3, Some ((bodyFetcher ''u'')\<lparr>sinkWrites := [(''abc'', 1), (''bc'', 0), (''bc'', 2)]\<rparr>))"
proof -
  have h: "\<not> m_done (bodyFetcher ''u'')" "m_streamWriter (bodyFetcher ''u'') \<noteq> None"
    "list_all goesOn [answer 1 OK, answer 0 TIMEDOUT]"
    "sumWritten [answer 1 OK, answer 0 TIMEDOUT] < length ''abc''"
    by (simp_all add: eval_defs)
  have g: "goesOn (answer 2 OK)"
    "length ''abc'' \<le> sumWritten [answer 1 OK, answer 0 TIMEDOUT] + numBytesWritten (answer 2 OK)"
    by (simp_all add: eval_defs)
  have sw: "sinkWrites (bodyFetcher ''u'') = []" by (simp add: eval_defs)
  from C2_write_status_handling[OF h, of "[]" "answer 2 OK"] g
  have "bodyCallback ''abc'' ([answer 1 OK, answer 0 TIMEDOUT] @ answer 2 OK # [])
          (Some (bodyFetcher ''u'')) =
        Some (sumWritten [answer 1 OK, answer 0 TIMEDOUT] + numBytesWritten (answer 2 OK),
          Some ((bodyFetcher ''u'')\<lparr>sinkWrites := sinkWrites (bodyFetcher ''u'') @
            spans ''abc'' 0 ([answer 1 OK, answer 0 TIMEDOUT] @ [answer 2 OK])\<rparr>))"
    by blast
  with h g sw show ?thesis by (simp add: sumWritten_def answer_def)
qed

text \<open>
  C4 as stated fails: the writer takes \<open>he\<close> of \<open>hello\<close> and answers
  \<open>OK_BUFFER_FULL\<close>; the delivery returns 0, and the bytes the writer took are not
  the first 0 bytes of the chunk.
\<close>

theorem C4_counterexample:
  "bodyCallback ''hello'' [answer 2 OK_BUFFER_FULL] (Some (bodyFetcher ''u'')) =
     Some (0, Some ((bodyFetcher ''u'')\<lparr>sinkWrites := [(''hello'', 2)]\<rparr>)) \<and>
   accepted [(''hello'', 2)] = ''he'' \<and> ''he'' \<noteq> take 0 ''hello''"
  by (simp add: eval_defs)

lemma writeLoop_returns:
  "length dat \<le> tbw + sumWritten rs \<Longrightarrow> \<exists>res. writeLoop dat tbw rs s = Some res"
proof (induction rs arbitrary: tbw s)
  case Nil
  then show ?case by (simp add: sumWritten_def)
next
  case (Cons r rs)
  show ?case
  proof (cases "tbw < length dat \<and> \<not> m_done s")
    case False
    then show ?thesis by auto
  next
    case True
    then have step: "writeLoop dat tbw (r # rs) s =
     (if stopsDelivery (writeStatus r) then Some (tbw + numBytesWritten r, afterWrite dat tbw r s)
      else if abortsDelivery (writeStatus r) then Some (0, afterWrite dat tbw r s)
      else writeLoop dat (tbw + numBytesWritten r) rs (afterWrite dat tbw r s))"
      by (intro writeLoop_step) simp_all
    from Cons.prems have "length dat \<le> tbw + numBytesWritten r + sumWritten rs"
      by (simp add: sumWritten_def)
    from Cons.IH[OF this, of "afterWrite dat tbw r s"] step show ?thesis
      by (simp only: split: if_splits) auto
  qed
qed

text \<open>
  C4, amended. A delivery whose answers cover the chunk returns. In every delivery
  that returns, the writer was asked a run of attempts, each with the chunk minus the
  bytes counted so far, and the bytes it took, concatenated in call order, are the
  first \<open>t\<close> bytes of the chunk, \<open>t\<close> being the sum of the counts it answered. The
  delivery returns \<open>t\<close>, except that it returns 0 when the last attempt was answered
  with OK-but-full or with no enumerator.
\<close>

theorem C4_bytes_in_order:
  "(length dat \<le> sumWritten rs \<longrightarrow>
      (\<exists>k s'. bodyCallback dat rs (Some s) = Some (k, Some s'))) \<and>
   (\<forall>k s'. bodyCallback dat rs (Some s) = Some (k, Some s') \<longrightarrow>
      (\<exists>used rest. rs = used @ rest \<and>
         sinkWrites s' = sinkWrites s @ spans dat 0 used \<and>
         accepted (spans dat 0 used) = take (sumWritten used) dat \<and>
         (k = sumWritten used \<or>
          (k = 0 \<and> used \<noteq> [] \<and> abortsDelivery (writeStatus (last used))))))"
proof -
  have returns: "\<exists>k s'. bodyCallback dat rs (Some s) = Some (k, Some s')"
    if "length dat \<le> sumWritten rs"
  proof -
    from that have "length dat \<le> 0 + sumWritten rs" by simp
    from writeLoop_returns[OF this, of s] obtain k s' where "writeLoop dat 0 rs s = Some (k, s')"
      by auto
    then show ?thesis by (simp add: bodyCallback_def)
  qed
  have trace: "\<exists>used rest. rs = used @ rest \<and>
         sinkWrites s' = sinkWrites s @ spans dat 0 used \<and>
         accepted (spans dat 0 used) = take (sumWritten used) dat \<and>
         (k = sumWritten used \<or>
          (k = 0 \<and> used \<noteq> [] \<and> abortsDelivery (writeStatus (last used))))"
    if run: "bodyCallback dat rs (Some s) = Some (k, Some s')" for k s'
  proof (cases "\<not> m_done s \<and> m_streamWriter s \<noteq> None")
    case True
    with run have "writeLoop dat 0 rs s = Some (k, s')"
      by (auto simp: bodyCallback_def split: option.splits)
    from writeLoop_trace[OF this] obtain used rest where
      "rs = used @ rest" "sinkWrites s' = sinkWrites s @ spans dat 0 used"
      "k = sumWritten used \<or> (k = 0 \<and> used \<noteq> [] \<and> abortsDelivery (writeStatus (last used)))"
      by auto
    moreover have "accepted (spans dat 0 used) = take (sumWritten used) dat"
      using accepted_spans[of dat 0 used] by simp
    ultimately show ?thesis by blast
  next
    case False
    with run have "k = 0" "s' = s"
      by (auto simp: bodyCallback_def split: if_splits)
    then have "rs = [] @ rs \<and> sinkWrites s' = sinkWrites s @ spans dat 0 [] \<and>
        accepted (spans dat 0 []) = take (sumWritten []) dat \<and> k = sumWritten []"
      by (simp add: accepted_def sumWritten_def)
    then show ?thesis by blast
  qed
  from returns trace show ?thesis by blast
qed

text \<open>The chunk \<open>hello\<close> taken as \<open>he\<close> and \<open>llo\<close>.\<close>

theorem C4_bytes_in_order_witness:
  "length ''hello'' \<le> sumWritten [answer 2 OK, answer 3 OK] \<and>
   bodyCallback ''hello'' [answer 2 OK, answer 3 OK] (Some (bodyFetcher ''u'')) =
     Some (5, Some ((bodyFetcher ''u'')\<lparr>sinkWrites := [(''hello'', 2), (''llo'', 3)]\<rparr>)) \<and>
   (\<exists>used rest. [answer 2 OK, answer 3 OK] = used @ rest \<and>
      [(''hello'', 2), (''llo'', 3)] = spans ''hello'' 0 used \<and>
      accepted (spans ''hello'' 0 used) = take (sumWritten used) ''hello'' \<and>
      (5 = sumWritten used \<or>
        ((5::nat) = 0 \<and> used \<noteq> [] \<and> abortsDelivery (writeStatus (last used)))))"
proof -
  have len: "length ''hello'' \<le> sumWritten [answer 2 OK, answer 3 OK]"
    by (simp add: sumWritten_def answer_def)
  have run: "bodyCallback ''hello'' [answer 2 OK, answer 3 OK] (Some (bodyFetcher ''u'')) =
     Some (5, Some ((bodyFetcher ''u'')\<lparr>sinkWrites := [(''hello'', 2), (''llo'', 3)]\<rparr>))"
    by (simp add: eval_defs)
  have sw: "sinkWrites (bodyFetcher ''u'') = []" by (simp add: eval_defs)
  from C4_bytes_in_order[of "''hello''" "[answer 2 OK, answer 3 OK]" "bodyFetcher ''u''"] run
  have "\<exists>used rest. [answer 2 OK, answer 3 OK] = used @ rest \<and>
      sinkWrites ((bodyFetcher ''u'')\<lparr>sinkWrites := [(''hello'', 2), (''llo'', 3)]\<rparr>) =
        sinkWrites (bodyFetcher ''u'') @ spans ''hello'' 0 used \<and>
      accepted (spans ''hello'' 0 used) = take (sumWritten used) ''hello'' \<and>
      (5 = sumWritten used \<or>
        ((5::nat) = 0 \<and> used \<noteq> [] \<and> abortsDelivery (writeStatus (last used))))"
    by blast
  with sw len run show ?thesis by simp
qed

section \<open>Properties of getContent\<close>

lemma selectMode_used:
  "m_hasObjectBeenUsed (snd (selectMode env opt w s)) = m_hasObjectBeenUsed s"
  by (cases opt) (simp_all add: selectMode_def Let_def)

lemma getContent_used: "m_hasObjectBeenUsed (snd (getContent env opt w s))"
  by (simp add: getContent_def setopt_def selectMode_used Let_def)

lemma getContent_again:
  "m_hasObjectBeenUsed s \<Longrightarrow> getContent env opt w s = (Inl AlreadyUsed, s)"
  by (simp add: getContent_def)

text \<open>
  C1. Whatever the first call of \<^verbatim>\<open>getContent\<close> was given and whatever it answered,
  a second call on the object it leaves fails on the already-used branch and returns
  the object exactly as it found it: no option set, no callback registered, no
  thread started.
\<close>

theorem C1_second_call_fails:
  "getContent env2 opt2 w2 (snd (getContent env1 opt1 w1 s)) =
     (Inl AlreadyUsed, snd (getContent env1 opt1 w1 s))"
  by (rule getContent_again) (rule getContent_used)

text \<open>A successful body fetch, then a second call.\<close>

theorem C1_second_call_fails_witness:
  "fst (getContent allOk ENTIRE_BODY None (newFetcher ''u'')) = Inr \<lparr>stream = Some ''u''\<rparr> \<and>
   m_thread (bodyFetcher ''u'') = Some (EntireBodyThread True) \<and>
   getContent allOk CONTENT_TYPE (Some (SuppliedWriter 1)) (bodyFetcher ''u'') =
     (Inl AlreadyUsed, bodyFetcher ''u'')"
proof -
  have "fst (getContent allOk ENTIRE_BODY None (newFetcher ''u'')) = Inr \<lparr>stream = Some ''u''\<rparr>"
    "m_thread (bodyFetcher ''u'') = Some (EntireBodyThread True)"
    by (simp_all add: eval_defs)
  with C1_second_call_fails[of allOk CONTENT_TYPE "Some (SuppliedWriter 1)" allOk ENTIRE_BODY None
      "newFetcher ''u''"]
  show ?thesis by (simp add: bodyFetcher_def)
qed

lemma selectMode_Inl_thread:
  "fst (selectMode env opt w s) = Inl e \<Longrightarrow>
   e \<noteq> AlreadyUsed \<and> m_thread (snd (selectMode env opt w s)) = m_thread s"
  by (cases opt) (auto simp: selectMode_def Let_def split: if_splits)

lemma getContent_first_fails:
  "\<not> m_hasObjectBeenUsed s \<Longrightarrow> fst (getContent env opt w s) = Inl e \<Longrightarrow>
   e \<noteq> AlreadyUsed \<and> m_thread (snd (getContent env opt w s)) = m_thread s"
  using selectMode_Inl_thread[of env opt w]
  by (auto simp: getContent_def setopt_def Let_def split: if_splits)

text \<open>
  C9. When the first call on an unused object fails, it fails on a branch other than
  the already-used one and starts no thread, yet it has consumed the flag: the flag
  is set before the url is looked at (a refused url leaves an object that differs
  from the one before in the flag only), and every later call, even with a transport
  that would refuse nothing, fails on the already-used branch.
\<close>

theorem C9_failed_configuration_consumes_the_flag:
  assumes "\<not> m_hasObjectBeenUsed s" and "fst (getContent env opt w s) = Inl e"
  shows "e \<noteq> AlreadyUsed \<and>
         m_thread (snd (getContent env opt w s)) = m_thread s \<and>
         (\<not> setURL_ok env \<longrightarrow>
            getContent env opt w s = (Inl FailedToSetUrl, s\<lparr>m_hasObjectBeenUsed := True\<rparr>)) \<and>
         getContent env' opt' w' (snd (getContent env opt w s)) =
           (Inl AlreadyUsed, snd (getContent env opt w s))"
proof -
  have "\<not> setURL_ok env \<longrightarrow>
      getContent env opt w s = (Inl FailedToSetUrl, s\<lparr>m_hasObjectBeenUsed := True\<rparr>)"
    using assms(1) by (simp add: getContent_def)
  moreover have "getContent env' opt' w' (snd (getContent env opt w s)) =
      (Inl AlreadyUsed, snd (getContent env opt w s))"
    by (rule getContent_again) (rule getContent_used)
  ultimately show ?thesis using getContent_first_fails[OF assms] by blast
qed

text \<open>A url that \<^verbatim>\<open>setURL\<close> refuses, then a retry.\<close>

theorem C9_failed_configuration_consumes_the_flag_witness:
  "\<not> m_hasObjectBeenUsed (newFetcher ''not a url'') \<and>
   \<not> setURL_ok (allOk\<lparr>setURL_ok := False\<rparr>) \<and>
   getContent (allOk\<lparr>setURL_ok := False\<rparr>) ENTIRE_BODY None (newFetcher ''not a url'') =
     (Inl FailedToSetUrl, (newFetcher ''not a url'')\<lparr>m_hasObjectBeenUsed := True\<rparr>) \<and>
   getContent allOk ENTIRE_BODY None ((newFetcher ''not a url'')\<lparr>m_hasObjectBeenUsed := True\<rparr>) =
     (Inl AlreadyUsed, (newFetcher ''not a url'')\<lparr>m_hasObjectBeenUsed := True\<rparr>)"
proof -
  let ?env = "allOk\<lparr>setURL_ok := False\<rparr>"
  have h: "\<not> m_hasObjectBeenUsed (newFetcher ''not a url'')"
    "fst (getContent ?env ENTIRE_BODY None (newFetcher ''not a url'')) = Inl FailedToSetUrl"
    by (simp_all add: eval_defs)
  have u: "\<not> setURL_ok ?env" by (simp add: allOk_def)
  note c9 = C9_failed_configuration_consumes_the_flag[OF h, of allOk ENTIRE_BODY None]
  from c9 u have a: "getContent ?env ENTIRE_BODY None (newFetcher ''not a url'') =
      (Inl FailedToSetUrl, (newFetcher ''not a url'')\<lparr>m_hasObjectBeenUsed := True\<rparr>)"
    by blast
  from c9 have "getContent allOk ENTIRE_BODY None
      (snd (getContent ?env ENTIRE_BODY None (newFetcher ''not a url''))) =
      (Inl AlreadyUsed, snd (getContent ?env ENTIRE_BODY None (newFetcher ''not a url'')))"
    by blast
  then have "getContent allOk ENTIRE_BODY None
      ((newFetcher ''not a url'')\<lparr>m_hasObjectBeenUsed := True\<rparr>) =
      (Inl AlreadyUsed, (newFetcher ''not a url'')\<lparr>m_hasObjectBeenUsed := True\<rparr>)"
    unfolding a by simp
  with a u h(1) show ?thesis by blast
qed

text \<open>
  C10. With a fetch option that is neither \<^verbatim>\<open>CONTENT_TYPE\<close> nor \<^verbatim>\<open>ENTIRE_BODY\<close>,
  \<^verbatim>\<open>getContent\<close> fails; it starts no thread, registers no callback, stores no writer
  and fulfils neither promise. On an unused object whose transport is configured
  without failure, the failure is the one of the \<^verbatim>\<open>default\<close> branch. With no thread
  there is nothing left that could fulfil a promise later.
\<close>

theorem C10_other_option_fails:
  "(\<exists>e. fst (getContent env (OTHER_OPTION k) w s) = Inl e) \<and>
   m_thread (snd (getContent env (OTHER_OPTION k) w s)) = m_thread s \<and>
   writeFunction (snd (getContent env (OTHER_OPTION k) w s)) = writeFunction s \<and>
   headerFunction (snd (getContent env (OTHER_OPTION k) w s)) = headerFunction s \<and>
   m_streamWriter (snd (getContent env (OTHER_OPTION k) w s)) = m_streamWriter s \<and>
   m_statusCodePromise (snd (getContent env (OTHER_OPTION k) w s)) = m_statusCodePromise s \<and>
   m_contentTypePromise (snd (getContent env (OTHER_OPTION k) w s)) = m_contentTypePromise s \<and>
   (\<not> m_hasObjectBeenUsed s \<and> configured env \<longrightarrow>
      fst (getContent env (OTHER_OPTION k) w s) = Inl DefaultBranch) \<and>
   (m_thread s = None \<longrightarrow>
      runThread rs re mh its (snd (getContent env (OTHER_OPTION k) w s)) =
        Some (snd (getContent env (OTHER_OPTION k) w s)))"
  by (simp add: getContent_def selectMode_def setopt_def Let_def configured_def runThread_def)

text \<open>A fresh object, a transport that refuses nothing, and a fetch option that is
  neither mode.\<close>

theorem C10_other_option_fails_witness:
  "\<not> m_hasObjectBeenUsed (newFetcher ''u'') \<and> configured allOk \<and>
   m_thread (newFetcher ''u'') = None \<and>
   fst (getContent allOk (OTHER_OPTION 7) None (newFetcher ''u'')) = Inl DefaultBranch \<and>
   runThread 300 308 True [quietRound] (snd (getContent allOk (OTHER_OPTION 7) None (newFetcher ''u''))) =
     Some (snd (getContent allOk (OTHER_OPTION 7) None (newFetcher ''u'')))"
proof -
  have h: "\<not> m_hasObjectBeenUsed (newFetcher ''u'')" "configured allOk"
    "m_thread (newFetcher ''u'') = None"
    by (simp_all add: newFetcher_def configured_def allOk_def)
  from C10_other_option_fails[of allOk 7 None "newFetcher ''u''" 300 308 True "[quietRound]"] h
  show ?thesis by blast
qed


section \<open>Properties of the background thread\<close>

lemma untouched_refl: "untouched s s"
  by (simp add: untouched_def)

lemma untouched_trans: "untouched s t \<Longrightarrow> untouched t u \<Longrightarrow> untouched s u"
  by (simp add: untouched_def)

lemma untouched_destructorSignal: "untouched s (destructorSignal s)"
  by (simp add: untouched_def destructorSignal_def)

lemma untouched_afterWrite: "untouched s (afterWrite dat tbw r s)"
  by (simp add: untouched_def afterWrite_def destructorSignal_def Let_def)

lemma untouched_writeLoop:
  "writeLoop dat tbw rs s = Some (k, s') \<Longrightarrow> untouched s s'"
proof (induction rs arbitrary: tbw s)
  case Nil
  then show ?case by (auto simp: untouched_refl split: if_splits)
next
  case (Cons r rs)
  show ?case
  proof (cases "tbw < length dat \<and> \<not> m_done s")
    case False
    with Cons.prems show ?thesis by (auto simp: untouched_refl)
  next
    case True
    then have step: "writeLoop dat tbw (r # rs) s =
     (if stopsDelivery (writeStatus r) then Some (tbw + numBytesWritten r, afterWrite dat tbw r s)
      else if abortsDelivery (writeStatus r) then Some (0, afterWrite dat tbw r s)
      else writeLoop dat (tbw + numBytesWritten r) rs (afterWrite dat tbw r s))"
      by (intro writeLoop_step) simp_all
    show ?thesis
    proof (cases "stopsDelivery (writeStatus r) \<or> abortsDelivery (writeStatus r)")
      case True
      with step Cons.prems have "s' = afterWrite dat tbw r s" by (auto split: if_splits)
      then show ?thesis by (simp add: untouched_afterWrite)
    next
      case False
      with step Cons.prems
      have "writeLoop dat (tbw + numBytesWritten r) rs (afterWrite dat tbw r s) = Some (k, s')"
        by simp
      from Cons.IH[OF this] show ?thesis
        using untouched_afterWrite untouched_trans by blast
    qed
  qed
qed

lemma untouched_headerCallback:
  "snd (headerCallback g line (Some s)) = Some s' \<Longrightarrow> untouched s s'"
  by (auto simp: headerCallback_def untouched_def Let_def split: if_splits)

lemma untouched_deliver: "deliver d s = Some s' \<Longrightarrow> untouched s s'"
proof (cases d)
  case (HeaderLine line g)
  assume "deliver d s = Some s'"
  with HeaderLine show ?thesis
    using untouched_headerCallback[of g line s]
    by (auto simp: untouched_refl split: if_splits option.splits)
next
  case (BodyChunk dat rs)
  assume a: "deliver d s = Some s'"
  show ?thesis
  proof (cases "writeFunction s = Some BodyCallback \<and> \<not> m_done s \<and> m_streamWriter s \<noteq> None")
    case True
    with a BodyChunk obtain k where "writeLoop dat 0 rs s = Some (k, s')"
      by (auto simp: bodyCallback_def split: option.splits)
    then show ?thesis by (rule untouched_writeLoop)
  next
    case False
    with a BodyChunk have "s' = s"
      by (auto simp: bodyCallback_def split: option.splits WriteFunction.splits if_splits)
    then show ?thesis by (simp add: untouched_refl)
  qed
next
  case DestructorRuns
  assume "deliver d s = Some s'"
  with DestructorRuns show ?thesis by (auto simp: untouched_destructorSignal)
qed

lemma untouched_deliverAll: "deliverAll ds s = Some s' \<Longrightarrow> untouched s s'"
proof (induction ds arbitrary: s)
  case Nil
  then show ?case by (simp add: untouched_refl)
next
  case (Cons d ds)
  then obtain s1 where "deliver d s = Some s1" "deliverAll ds s1 = Some s'"
    by (auto split: option.splits)
  with Cons.IH show ?case using untouched_deliver untouched_trans by blast
qed

lemma untouched_endOfRound: "untouched s (endOfRound it s)"
  by (simp add: endOfRound_def untouched_destructorSignal untouched_refl)


lemma writeLoop_changes:
  "writeLoop dat tbw rs s = Some (k, s') \<Longrightarrow>
   \<exists>d i w. s' = s\<lparr>m_done := d, m_isShutdown := i, sinkWrites := w\<rparr>"
proof (induction rs arbitrary: tbw s)
  case Nil
  then have "s' = s" by (auto split: if_splits)
  then have "s' = s\<lparr>m_done := m_done s, m_isShutdown := m_isShutdown s, sinkWrites := sinkWrites s\<rparr>"
    by simp
  then show ?case by blast
next
  case (Cons r rs)
  have aw: "\<exists>d i w. afterWrite dat tbw r s = s\<lparr>m_done := d, m_isShutdown := i, sinkWrites := w\<rparr>"
  proof -
    have "afterWrite dat tbw r s = s\<lparr>m_done := m_done (afterWrite dat tbw r s),
        m_isShutdown := m_isShutdown (afterWrite dat tbw r s),
        sinkWrites := sinkWrites (afterWrite dat tbw r s)\<rparr>"
      by (simp add: afterWrite_def destructorSignal_def Let_def)
    then show ?thesis by blast
  qed
  show ?case
  proof (cases "tbw < length dat \<and> \<not> m_done s")
    case False
    with Cons.prems have "s' = s" by auto
    then have "s' = s\<lparr>m_done := m_done s, m_isShutdown := m_isShutdown s, sinkWrites := sinkWrites s\<rparr>"
      by simp
    then show ?thesis by blast
  next
    case True
    then have step: "writeLoop dat tbw (r # rs) s =
     (if stopsDelivery (writeStatus r) then Some (tbw + numBytesWritten r, afterWrite dat tbw r s)
      else if abortsDelivery (writeStatus r) then Some (0, afterWrite dat tbw r s)
      else writeLoop dat (tbw + numBytesWritten r) rs (afterWrite dat tbw r s))"
      by (intro writeLoop_step) simp_all
    show ?thesis
    proof (cases "stopsDelivery (writeStatus r) \<or> abortsDelivery (writeStatus r)")
      case True
      with step Cons.prems have "s' = afterWrite dat tbw r s" by (auto split: if_splits)
      with aw show ?thesis by simp
    next
      case False
      with step Cons.prems
      have "writeLoop dat (tbw + numBytesWritten r) rs (afterWrite dat tbw r s) = Some (k, s')"
        by simp
      from Cons.IH[OF this] obtain d i w where
        "s' = (afterWrite dat tbw r s)\<lparr>m_done := d, m_isShutdown := i, sinkWrites := w\<rparr>"
        by blast
      moreover from aw obtain d' i' w' where
        "afterWrite dat tbw r s = s\<lparr>m_done := d', m_isShutdown := i', sinkWrites := w'\<rparr>"
        by blast
      ultimately have "s' = s\<lparr>m_done := d, m_isShutdown := i, sinkWrites := w\<rparr>" by simp
      then show ?thesis by blast
    qed
  qed
qed

lemma deliver_metadata:
  assumes "deliver d s = Some s'"
  shows "(\<not> isStatusLine d \<longrightarrow> m_lastStatusCode s' = m_lastStatusCode s) \<and>
         (\<not> isContentTypeLine d \<longrightarrow> m_lastContentType s' = m_lastContentType s)"
proof (cases d)
  case (HeaderLine line g)
  with assms show ?thesis
    by (auto simp: headerCallback_def Let_def split: if_splits)
next
  case (BodyChunk dat rs)
  show ?thesis
  proof (cases "writeFunction s = Some BodyCallback \<and> \<not> m_done s \<and> m_streamWriter s \<noteq> None")
    case True
    with assms BodyChunk obtain k where "writeLoop dat 0 rs s = Some (k, s')"
      by (auto simp: bodyCallback_def split: option.splits)
    from writeLoop_changes[OF this] obtain d i w where
      "s' = s\<lparr>m_done := d, m_isShutdown := i, sinkWrites := w\<rparr>" by blast
    then show ?thesis by simp
  next
    case False
    with assms BodyChunk have "s' = s"
      by (auto simp: bodyCallback_def split: option.splits WriteFunction.splits if_splits)
    then show ?thesis by simp
  qed
next
  case DestructorRuns
  with assms show ?thesis by (auto simp: destructorSignal_def)
qed

lemma deliverAll_metadata:
  "deliverAll ds s = Some s' \<Longrightarrow>
   (list_all (\<lambda>d. \<not> isStatusLine d) ds \<longrightarrow> m_lastStatusCode s' = m_lastStatusCode s) \<and>
   (list_all (\<lambda>d. \<not> isContentTypeLine d) ds \<longrightarrow> m_lastContentType s' = m_lastContentType s)"
proof (induction ds arbitrary: s)
  case Nil
  then show ?case by simp
next
  case (Cons d ds)
  then obtain s1 where d: "deliver d s = Some s1" and ds: "deliverAll ds s1 = Some s'"
    by (auto split: option.splits)
  from deliver_metadata[OF d] Cons.IH[OF ds] show ?case by simp
qed

lemma endOfRound_metadata:
  "m_lastStatusCode (endOfRound it s) = m_lastStatusCode s"
  "m_lastContentType (endOfRound it s) = m_lastContentType s"
  by (simp_all add: endOfRound_def destructorSignal_def)

lemma contentTypeLoop_exit:
  "contentTypeLoop rs re its n frc ct s = Some (frc', ct', s') \<Longrightarrow>
   untouched s s' \<and>
   (frc = 0 \<and> list_all (\<lambda>it. snd (responseCode it) = 0) its \<longrightarrow> frc' = 0) \<and>
   (ct = None \<and> list_all (\<lambda>it. snd (contentTypeInfo it) = None) its \<longrightarrow> ct' = None)"
proof (induction its arbitrary: n frc ct s)
  case Nil
  then show ?case by (auto simp: untouched_refl split: if_splits)
next
  case (Cons it its)
  show ?case
  proof (cases "n \<noteq> 0 \<and> \<not> m_isShutdown s")
    case False
    with Cons.prems show ?thesis by (auto simp: untouched_refl)
  next
    case True
    with Cons.prems obtain s1 where s1: "deliverAll (deliveries it) s = Some s1"
      by (auto split: option.splits)
    have u1: "untouched s s1" using s1 by (rule untouched_deliverAll)
    have u2: "untouched s (endOfRound it s1)"
      using u1 untouched_endOfRound untouched_trans by blast
    consider (again) "performResult it = CURLM_CALL_MULTI_PERFORM"
      | (onward) "performResult it = CURLM_OK" "fst (responseCode it) = CURLE_OK"
          "\<not> (snd (responseCode it) \<noteq> 0 \<and>
               (snd (responseCode it) < rs \<or> snd (responseCode it) > re))"
          "waitResult it = CURLM_OK"
      | (out) "performResult it \<noteq> CURLM_CALL_MULTI_PERFORM"
          "\<not> (performResult it = CURLM_OK \<and> fst (responseCode it) = CURLE_OK \<and>
               \<not> (snd (responseCode it) \<noteq> 0 \<and>
                    (snd (responseCode it) < rs \<or> snd (responseCode it) > re)) \<and>
               waitResult it = CURLM_OK)"
      by blast
    then show ?thesis
    proof cases
      case again
      with True s1 Cons.prems
      have "contentTypeLoop rs re its (transfersLeft it) frc ct (endOfRound it s1) =
          Some (frc', ct', s')" by simp
      from Cons.IH[OF this] u2 show ?thesis
        using untouched_trans by (auto simp: untouched_def)
    next
      case onward
      with True s1 Cons.prems
      have "contentTypeLoop rs re its (transfersLeft it) (snd (responseCode it)) ct
          (endOfRound it s1) = Some (frc', ct', s')" by simp
      from Cons.IH[OF this] u2 show ?thesis
        by (auto simp: untouched_def)
    next
      case out
      with True s1 Cons.prems
      have "s' = s1 \<and> (frc' = frc \<or> frc' = snd (responseCode it)) \<and>
          (ct' = ct \<or> ct' = snd (contentTypeInfo it))"
        by (auto split: if_splits)
      with u1 show ?thesis by auto
    qed
  qed
qed

lemma entireBodyLoop_exit:
  "entireBodyLoop its n s = Some s' \<Longrightarrow>
   untouched s s' \<and>
   (list_all (\<lambda>it. list_all (\<lambda>d. \<not> isStatusLine d) (deliveries it)) its \<longrightarrow>
      m_lastStatusCode s' = m_lastStatusCode s) \<and>
   (list_all (\<lambda>it. list_all (\<lambda>d. \<not> isContentTypeLine d) (deliveries it)) its \<longrightarrow>
      m_lastContentType s' = m_lastContentType s)"
proof (induction its arbitrary: n s)
  case Nil
  then show ?case by (auto simp: untouched_refl split: if_splits)
next
  case (Cons it its)
  show ?case
  proof (cases "n \<noteq> 0 \<and> \<not> m_isShutdown s")
    case False
    with Cons.prems show ?thesis by (auto simp: untouched_refl)
  next
    case True
    with Cons.prems obtain s1 where s1: "deliverAll (deliveries it) s = Some s1"
      by (auto split: option.splits)
    have u1: "untouched s s1" using s1 by (rule untouched_deliverAll)
    have u2: "untouched s (endOfRound it s1)"
      using u1 untouched_endOfRound untouched_trans by blast
    note m1 = deliverAll_metadata[OF s1]
    show ?thesis
    proof (cases "performResult it = CURLM_CALL_MULTI_PERFORM \<or>
        (performResult it = CURLM_OK \<and> waitResult it = CURLM_OK)")
      case True
      with \<open>n \<noteq> 0 \<and> \<not> m_isShutdown s\<close> s1 Cons.prems
      have "entireBodyLoop its (transfersLeft it) (endOfRound it s1) = Some s'"
        by (auto split: if_splits)
      from Cons.IH[OF this] u2 m1 show ?thesis
        by (auto simp: untouched_def endOfRound_metadata)
    next
      case False
      with \<open>n \<noteq> 0 \<and> \<not> m_isShutdown s\<close> s1 Cons.prems have "s' = s1"
        by (auto split: if_splits)
      with u1 m1 show ?thesis by auto
    qed
  qed
qed


lemma getContent_started:
  assumes "getContent env opt w (newFetcher url) = (Inr h, s0)"
  shows "m_statusCodePromise s0 = [] \<and> m_contentTypePromise s0 = [] \<and>
         m_lastStatusCode s0 = 0 \<and> m_lastContentType s0 = [] \<and>
         sinkWrites s0 = [] \<and> sinkCloseCalls s0 = 0 \<and> \<not> m_done s0 \<and> \<not> m_isShutdown s0 \<and>
         ((opt = CONTENT_TYPE \<and> m_thread s0 = Some ContentTypeThread \<and>
           writeFunction s0 = Some NoopCallback \<and> \<not> headerFunction s0) \<or>
          (opt = ENTIRE_BODY \<and> m_thread s0 = Some (EntireBodyThread (w = None)) \<and>
           writeFunction s0 = Some BodyCallback \<and> headerFunction s0 \<and>
           m_streamWriter s0 \<noteq> None))"
  using assms
  by (cases opt)
     (auto simp: getContent_def selectMode_def setopt_def newFetcher_def Let_def
           split: if_splits)

lemma started_destroyed:
  "m_statusCodePromise (if early then destructorSignal s else s) = m_statusCodePromise s"
  "m_contentTypePromise (if early then destructorSignal s else s) = m_contentTypePromise s"
  "m_lastStatusCode (if early then destructorSignal s else s) = m_lastStatusCode s"
  "m_lastContentType (if early then destructorSignal s else s) = m_lastContentType s"
  "m_thread (if early then destructorSignal s else s) = m_thread s"
  by (simp_all add: destructorSignal_def)

lemma contentTypeThread_exit:
  assumes "contentTypeThread rs re mh its s = Some s'"
  shows "\<exists>code ct. m_statusCodePromise s' = m_statusCodePromise s @ [code] \<and>
           m_contentTypePromise s' = m_contentTypePromise s @ [ct] \<and>
           (\<not> mh \<or> list_all (\<lambda>it. snd (responseCode it) = 0) its \<longrightarrow> code = 0) \<and>
           (\<not> mh \<or> list_all (\<lambda>it. snd (contentTypeInfo it) = None) its \<longrightarrow> ct = [])"
proof (cases mh)
  case False
  with assms show ?thesis by (auto simp: contentTypeThread_def)
next
  case True
  with assms obtain frc ct s1 where l: "contentTypeLoop rs re its 1 0 None s = Some (frc, ct, s1)"
    and s': "s' = s1\<lparr>m_statusCodePromise := m_statusCodePromise s1 @ [frc],
                      m_contentTypePromise := m_contentTypePromise s1 @
                        [case ct of Some c \<Rightarrow> c | None \<Rightarrow> []]\<rparr>"
    by (auto simp: contentTypeThread_def split: option.splits)
  from contentTypeLoop_exit[OF l] s' True show ?thesis
    by (auto simp: untouched_def)
qed

lemma entireBodyThread_exit:
  assumes "entireBodyThread local mh its s = Some s'"
  shows "\<exists>code ct. m_statusCodePromise s' = m_statusCodePromise s @ [code] \<and>
           m_contentTypePromise s' = m_contentTypePromise s @ [ct] \<and>
           (\<not> mh \<longrightarrow> code = 0 \<and> ct = []) \<and>
           (list_all (\<lambda>it. list_all (\<lambda>d. \<not> isStatusLine d) (deliveries it)) its \<longrightarrow>
              mh \<longrightarrow> code = m_lastStatusCode s) \<and>
           (list_all (\<lambda>it. list_all (\<lambda>d. \<not> isContentTypeLine d) (deliveries it)) its \<longrightarrow>
              mh \<longrightarrow> ct = m_lastContentType s)"
proof (cases mh)
  case False
  with assms show ?thesis by (auto simp: entireBodyThread_def)
next
  case True
  with assms obtain s1 where l: "entireBodyLoop its 1 s = Some s1"
    and s': "m_statusCodePromise s' = m_statusCodePromise s1 @ [m_lastStatusCode s1]"
            "m_contentTypePromise s' = m_contentTypePromise s1 @ [m_lastContentType s1]"
    by (auto simp: entireBodyThread_def Let_def split: option.splits)
  from entireBodyLoop_exit[OF l] s' True show ?thesis
    by (auto simp: untouched_def)
qed

lemma entireBodyThread_normal_exit:
  assumes "entireBodyThread local True its s = Some s'"
  shows "m_done s' \<and> sinkCloseCalls s' = sinkCloseCalls s + (if local then 1 else 0)"
proof -
  from assms obtain s1 where l: "entireBodyLoop its 1 s = Some s1"
    and s': "m_done s'" "sinkCloseCalls s' = sinkCloseCalls s1 + (if local then 1 else 0)"
    by (auto simp: entireBodyThread_def Let_def split: option.splits)
  from entireBodyLoop_exit[OF l] s' show ?thesis by (simp add: untouched_def)
qed

lemma deliver_returns: "answered d \<Longrightarrow> \<exists>s'. deliver d s = Some s'"
proof (cases d)
  case (HeaderLine line g)
  then show ?thesis by (auto split: option.splits)
next
  case (BodyChunk dat rs)
  assume "answered d"
  with BodyChunk have "length dat \<le> 0 + sumWritten rs" by simp
  from writeLoop_returns[OF this, of s] obtain res where "writeLoop dat 0 rs s = Some res"
    by blast
  then have "\<exists>res. bodyCallback dat rs (Some s) = Some res"
    by (cases res) (simp add: bodyCallback_def)
  with BodyChunk show ?thesis
    by (auto split: option.splits WriteFunction.splits)
next
  case DestructorRuns
  then show ?thesis by simp
qed

lemma deliverAll_returns: "list_all answered ds \<Longrightarrow> \<exists>s'. deliverAll ds s = Some s'"
proof (induction ds arbitrary: s)
  case Nil
  then show ?case by simp
next
  case (Cons d ds)
  then obtain s1 where "deliver d s = Some s1" using deliver_returns[of d s] by auto
  with Cons show ?case by auto
qed

lemma contentTypeLoop_returns:
  "list_all (\<lambda>it. list_all answered (deliveries it)) its \<Longrightarrow>
   (its = [] \<longrightarrow> n = 0) \<Longrightarrow> (its \<noteq> [] \<longrightarrow> transfersLeft (last its) = 0) \<Longrightarrow>
   \<exists>r. contentTypeLoop rs re its n frc ct s = Some r"
proof (induction its arbitrary: n frc ct s)
  case Nil
  then show ?case by simp
next
  case (Cons it its)
  from Cons.prems(1) obtain s1 where s1: "deliverAll (deliveries it) s = Some s1"
    using deliverAll_returns[of "deliveries it" s] by auto
  from Cons.prems have p: "list_all (\<lambda>it. list_all answered (deliveries it)) its"
    "its = [] \<longrightarrow> transfersLeft it = 0" "its \<noteq> [] \<longrightarrow> transfersLeft (last its) = 0"
    by auto
  have ih: "\<exists>r. contentTypeLoop rs re its (transfersLeft it) f ct (endOfRound it s1) = Some r"
    for f by (rule Cons.IH[OF p])
  show ?case
  proof (cases "performResult it = CURLM_CALL_MULTI_PERFORM")
    case True
    with s1 ih[of frc] show ?thesis by simp
  next
    case False
    with s1 ih[of "snd (responseCode it)"] ih[of 0] show ?thesis by auto
  qed
qed

lemma entireBodyLoop_returns:
  "list_all (\<lambda>it. list_all answered (deliveries it)) its \<Longrightarrow>
   (its = [] \<longrightarrow> n = 0) \<Longrightarrow> (its \<noteq> [] \<longrightarrow> transfersLeft (last its) = 0) \<Longrightarrow>
   \<exists>r. entireBodyLoop its n s = Some r"
proof (induction its arbitrary: n s)
  case Nil
  then show ?case by simp
next
  case (Cons it its)
  from Cons.prems(1) obtain s1 where s1: "deliverAll (deliveries it) s = Some s1"
    using deliverAll_returns[of "deliveries it" s] by auto
  from Cons.prems have p: "list_all (\<lambda>it. list_all answered (deliveries it)) its"
    "its = [] \<longrightarrow> transfersLeft it = 0" "its \<noteq> [] \<longrightarrow> transfersLeft (last its) = 0"
    by auto
  from Cons.IH[OF p, of "endOfRound it s1"] s1
  show ?case by simp
qed

lemma runThread_returns:
  assumes "\<not> mh \<or> finished its"
  shows "\<exists>s'. runThread rs re mh its s = Some s'"
proof (cases mh)
  case False
  then show ?thesis
    by (simp add: runThread_def contentTypeThread_def entireBodyThread_def
        split: option.splits ThreadBody.splits)
next
  case True
  with assms have f: "list_all (\<lambda>it. list_all answered (deliveries it)) its"
    "its = [] \<longrightarrow> (1::int) = 0" "its \<noteq> [] \<longrightarrow> transfersLeft (last its) = 0"
    by (simp_all add: finished_def)
  from contentTypeLoop_returns[OF f, of rs re 0 None s]
    entireBodyLoop_returns[OF f, of s]
  show ?thesis
    by (auto simp: runThread_def contentTypeThread_def entireBodyThread_def Let_def
        split: option.splits ThreadBody.splits)
qed

text \<open>
  C3. Take the thread a successful \<^verbatim>\<open>getContent\<close> on a new object starts, in either
  mode, whether or not the owner destroys the object before the thread looks at it.
  The thread comes to its end when the multi handle cannot be created and when the
  run of rounds is told to its end. However it comes to its end (no multi handle, no
  transfer left, \<^verbatim>\<open>perform\<close>, \<^verbatim>\<open>wait\<close> or \<^verbatim>\<open>curl_easy_getinfo\<close> failing, or
  shutdown seen), each promise has then been given exactly one value. The status code
  is 0 when the multi handle could not be created or the transport never told a
  status code, and the content type is empty when the multi handle could not be
  created or the transport never told a content type.
\<close>

theorem C3_promises_fulfilled_exactly_once:
  assumes "getContent env opt w (newFetcher url) = (Inr h, s0)"
  shows "(\<not> mh \<or> finished its \<longrightarrow>
            (\<exists>s'. runThread rs re mh its (if early then destructorSignal s0 else s0) = Some s')) \<and>
         (\<forall>s'. runThread rs re mh its (if early then destructorSignal s0 else s0) = Some s' \<longrightarrow>
            (\<exists>code ct. m_statusCodePromise s' = [code] \<and> m_contentTypePromise s' = [ct] \<and>
               (\<not> mh \<or> statusNeverResolved opt its \<longrightarrow> code = 0) \<and>
               (\<not> mh \<or> contentTypeNeverResolved opt its \<longrightarrow> ct = [])))"
proof -
  let ?s = "if early then destructorSignal s0 else s0"
  note st = getContent_started[OF assms]
  have once: "\<exists>code ct. m_statusCodePromise s' = [code] \<and> m_contentTypePromise s' = [ct] \<and>
           (\<not> mh \<or> statusNeverResolved opt its \<longrightarrow> code = 0) \<and>
           (\<not> mh \<or> contentTypeNeverResolved opt its \<longrightarrow> ct = [])"
    if run: "runThread rs re mh its ?s = Some s'" for s'
  proof -
    from st consider (ct) "opt = CONTENT_TYPE" "m_thread s0 = Some ContentTypeThread"
      | (eb) "opt = ENTIRE_BODY" "m_thread s0 = Some (EntireBodyThread (w = None))"
      by blast
    then show ?thesis
    proof cases
      case ct
      with run have "contentTypeThread rs re mh its ?s = Some s'"
        by (simp add: runThread_def started_destroyed)
      from contentTypeThread_exit[OF this] st ct show ?thesis
        by (simp add: started_destroyed statusNeverResolved_def contentTypeNeverResolved_def)
    next
      case eb
      with run have "entireBodyThread (w = None) mh its ?s = Some s'"
        by (simp add: runThread_def started_destroyed)
      from entireBodyThread_exit[OF this] st eb show ?thesis
        by (auto simp: started_destroyed statusNeverResolved_def contentTypeNeverResolved_def)
    qed
  qed
  with runThread_returns[of mh its rs re ?s] show ?thesis by blast
qed

text \<open>A body fetch whose first \<^verbatim>\<open>perform\<close> fails and leaves no transfer.\<close>

theorem C3_promises_fulfilled_exactly_once_witness:
  "getContent allOk ENTIRE_BODY None (newFetcher ''u'') =
     (Inr \<lparr>stream = Some ''u''\<rparr>, bodyFetcher ''u'') \<and>
   finished [quietRound\<lparr>performResult := CURLM_FAILED 1, transfersLeft := 0\<rparr>] \<and>
   runThread 300 308 True [quietRound\<lparr>performResult := CURLM_FAILED 1, transfersLeft := 0\<rparr>]
     (if False then destructorSignal (bodyFetcher ''u'') else bodyFetcher ''u'') =
     Some ((bodyFetcher ''u'')\<lparr>m_statusCodePromise := [0], m_contentTypePromise := [''''],
        sinkCloseCalls := 1, m_done := True\<rparr>) \<and>
   statusNeverResolved ENTIRE_BODY
     [quietRound\<lparr>performResult := CURLM_FAILED 1, transfersLeft := 0\<rparr>] \<and>
   contentTypeNeverResolved ENTIRE_BODY
     [quietRound\<lparr>performResult := CURLM_FAILED 1, transfersLeft := 0\<rparr>] \<and>
   (\<exists>code ct. [0] = [code] \<and> [''''] = [ct] \<and> code = (0::int) \<and> ct = ([]::string))"
proof -
  let ?its = "[quietRound\<lparr>performResult := CURLM_FAILED 1, transfersLeft := 0\<rparr>]"
  let ?S = "(bodyFetcher ''u'')\<lparr>m_statusCodePromise := [0], m_contentTypePromise := [''''],
        sinkCloseCalls := 1, m_done := True\<rparr>"
  have g: "getContent allOk ENTIRE_BODY None (newFetcher ''u'') =
      (Inr \<lparr>stream = Some ''u''\<rparr>, bodyFetcher ''u'')"
    by (simp add: eval_defs)
  have f: "finished ?its" by (simp add: finished_def quietRound_def)
  have r: "runThread 300 308 True ?its
      (if False then destructorSignal (bodyFetcher ''u'') else bodyFetcher ''u'') = Some ?S"
    by (simp add: eval_defs runThread_def entireBodyThread_def quietRound_def)
  have n: "statusNeverResolved ENTIRE_BODY ?its" "contentTypeNeverResolved ENTIRE_BODY ?its"
    by (simp_all add: statusNeverResolved_def contentTypeNeverResolved_def quietRound_def)
  from C3_promises_fulfilled_exactly_once[OF g, of True ?its 300 308 False] r n
  have "\<exists>code ct. [0] = [code] \<and> [''''] = [ct] \<and> code = (0::int) \<and> ct = ([]::string)"
    by simp
  with g f r n show ?thesis by blast
qed

lemma deliver_noop:
  assumes "writeFunction s = Some NoopCallback" and "\<not> headerFunction s"
  shows "\<exists>s'. deliver d s = Some s' \<and> sinkWrites s' = sinkWrites s \<and>
           (d \<noteq> DestructorRuns \<longrightarrow> s' = s)"
  using assms by (cases d) (simp_all add: destructorSignal_def)

lemma deliverAll_noop:
  assumes "writeFunction s = Some NoopCallback" and "\<not> headerFunction s"
  shows "\<exists>s'. deliverAll ds s = Some s' \<and> sinkWrites s' = sinkWrites s \<and>
           (list_all (\<lambda>d. d \<noteq> DestructorRuns) ds \<longrightarrow> s' = s)"
  using assms
proof (induction ds arbitrary: s)
  case Nil
  then show ?case by simp
next
  case (Cons d ds)
  from deliver_noop[OF Cons.prems, of d] obtain s1 where
    d: "deliver d s = Some s1" "sinkWrites s1 = sinkWrites s" "d \<noteq> DestructorRuns \<longrightarrow> s1 = s"
    by blast
  from untouched_deliver[OF d(1)] Cons.prems
  have "writeFunction s1 = Some NoopCallback" "\<not> headerFunction s1"
    by (simp_all add: untouched_def)
  from Cons.IH[OF this] obtain s' where
    "deliverAll ds s1 = Some s'" "sinkWrites s' = sinkWrites s1"
    "list_all (\<lambda>d. d \<noteq> DestructorRuns) ds \<longrightarrow> s' = s1" by blast
  with d show ?case by auto
qed

lemma contentTypeLoop_no_writes:
  "writeFunction s = Some NoopCallback \<Longrightarrow> \<not> headerFunction s \<Longrightarrow>
   contentTypeLoop rs re its n frc ct s = Some (frc', ct', s') \<Longrightarrow>
   sinkWrites s' = sinkWrites s"
proof (induction its arbitrary: n frc ct s)
  case Nil
  then show ?case by (auto split: if_splits)
next
  case (Cons it its)
  show ?case
  proof (cases "n \<noteq> 0 \<and> \<not> m_isShutdown s")
    case False
    with Cons.prems show ?thesis by auto
  next
    case True
    from deliverAll_noop[OF Cons.prems(1,2), of "deliveries it"] obtain s1 where
      s1: "deliverAll (deliveries it) s = Some s1" "sinkWrites s1 = sinkWrites s" by blast
    from untouched_deliverAll[OF s1(1)] Cons.prems(1,2)
    have m: "writeFunction (endOfRound it s1) = Some NoopCallback"
      "\<not> headerFunction (endOfRound it s1)"
      "sinkWrites (endOfRound it s1) = sinkWrites s1"
      by (simp_all add: untouched_def endOfRound_def destructorSignal_def)
    from True s1 Cons.prems(3) consider
      (rec) f c where "contentTypeLoop rs re its (transfersLeft it) f c (endOfRound it s1) =
          Some (frc', ct', s')"
      | (out) "s' = s1"
      by (auto split: if_splits)
    then show ?thesis
    proof cases
      case rec
      from Cons.IH[OF m(1,2) rec] m(3) s1(2) show ?thesis by simp
    next
      case out
      with s1 show ?thesis by simp
    qed
  qed
qed

lemma contentTypeLoop_resolves:
  assumes "writeFunction s = Some NoopCallback" and "\<not> headerFunction s"
    and "\<not> m_isShutdown s" and "n \<noteq> 0"
    and "list_all (passesThrough rs re) pre" and "resolves rs re it"
  shows "\<exists>s'. contentTypeLoop rs re (pre @ it # rest) n frc ct s =
           Some (snd (responseCode it), snd (contentTypeInfo it), s') \<and> untouched s s'"
  using assms(3,4,5)
proof (induction pre arbitrary: n frc ct)
  case Nil
  from deliverAll_noop[OF assms(1,2), of "deliveries it"] obtain s1 where
    s1: "deliverAll (deliveries it) s = Some s1" by blast
  from untouched_deliverAll[OF s1] s1 Nil assms(6) show ?case
    by (auto simp: resolves_def)
next
  case (Cons p pre)
  from Cons.prems have p: "passesThrough rs re p" and pre: "list_all (passesThrough rs re) pre"
    by simp_all
  from p have nd: "list_all (\<lambda>d. d \<noteq> DestructorRuns) (deliveries p)"
    by (simp add: passesThrough_def)
  from deliverAll_noop[OF assms(1,2), of "deliveries p"] nd
  have s1: "deliverAll (deliveries p) s = Some s" by auto
  from p have e: "endOfRound p s = s" by (simp add: passesThrough_def endOfRound_def)
  from p have tl: "transfersLeft p \<noteq> 0" by (simp add: passesThrough_def)
  from p consider (again) "performResult p = CURLM_CALL_MULTI_PERFORM"
    | (onward) "performResult p = CURLM_OK" "fst (responseCode p) = CURLE_OK"
        "snd (responseCode p) = 0 \<or> (rs \<le> snd (responseCode p) \<and> snd (responseCode p) \<le> re)"
        "waitResult p = CURLM_OK"
    by (auto simp: passesThrough_def)
  then show ?case
  proof cases
    case again
    with Cons.prems s1 e
    have "contentTypeLoop rs re ((p # pre) @ it # rest) n frc ct s =
        contentTypeLoop rs re (pre @ it # rest) (transfersLeft p) frc ct s" by simp
    with Cons.IH[OF Cons.prems(1) tl pre] show ?thesis by simp
  next
    case onward
    with Cons.prems s1 e
    have "contentTypeLoop rs re ((p # pre) @ it # rest) n frc ct s =
        contentTypeLoop rs re (pre @ it # rest) (transfersLeft p) (snd (responseCode p)) ct s"
      by auto
    with Cons.IH[OF Cons.prems(1) tl pre] show ?thesis by simp
  qed
qed

text \<open>
  C6. In the \<^verbatim>\<open>CONTENT_TYPE\<close> thread, after any number of rounds that let the loop
  run on, the first round in which the response code is queried as nonzero and
  outside the redirect range ends the loop whatever the transport would do next; the
  status promise gets that code and the content-type promise the content type queried
  in that round (empty for a null pointer). And in this mode no run of the thread
  passes a single byte to a writer.
\<close>

theorem C6_metadata_only_stops_at_final_status:
  assumes "getContent env CONTENT_TYPE w (newFetcher url) = (Inr h, s0)"
    and "list_all (passesThrough rs re) pre" and "resolves rs re it"
  shows "(\<exists>s'. runThread rs re True (pre @ it # rest) s0 = Some s' \<and>
            m_statusCodePromise s' = [snd (responseCode it)] \<and>
            m_contentTypePromise s' =
              [case snd (contentTypeInfo it) of Some c \<Rightarrow> c | None \<Rightarrow> []]) \<and>
         (\<forall>mh its s''. runThread rs re mh its s0 = Some s'' \<longrightarrow> sinkWrites s'' = [])"
proof -
  from getContent_started[OF assms(1)]
  have st: "m_statusCodePromise s0 = []" "m_contentTypePromise s0 = []" "sinkWrites s0 = []"
    "\<not> m_isShutdown s0" "m_thread s0 = Some ContentTypeThread"
    "writeFunction s0 = Some NoopCallback" "\<not> headerFunction s0"
    by simp_all
  from contentTypeLoop_resolves[OF st(6,7,4) _ assms(2,3), of 1 rest 0 None]
  obtain s1 where l: "contentTypeLoop rs re (pre @ it # rest) 1 0 None s0 =
      Some (snd (responseCode it), snd (contentTypeInfo it), s1)" and u: "untouched s0 s1"
    by auto
  from l u st have first: "\<exists>s'. runThread rs re True (pre @ it # rest) s0 = Some s' \<and>
      m_statusCodePromise s' = [snd (responseCode it)] \<and>
      m_contentTypePromise s' = [case snd (contentTypeInfo it) of Some c \<Rightarrow> c | None \<Rightarrow> []]"
    by (simp add: runThread_def contentTypeThread_def untouched_def)
  have "sinkWrites s'' = []" if r: "runThread rs re mh its s0 = Some s''" for mh its s''
  proof (cases mh)
    case False
    with r st show ?thesis by (auto simp: runThread_def contentTypeThread_def)
  next
    case True
    with r st obtain f c s2 where l2: "contentTypeLoop rs re its 1 0 None s0 = Some (f, c, s2)"
      and "sinkWrites s'' = sinkWrites s2"
      by (auto simp: runThread_def contentTypeThread_def split: option.splits)
    with contentTypeLoop_no_writes[OF st(6,7) l2] st show ?thesis by simp
  qed
  with first show ?thesis by blast
qed


text \<open>The scenario of the specification, with 300 to 308 as the redirect range: the
  response code is queried as 0, then as 301, then as 200 with the content type
  \<open>application/json\<close>, and in every round libcurl hands over body bytes.\<close>

theorem C6_metadata_only_stops_at_final_status_witness:
  "getContent allOk CONTENT_TYPE None (newFetcher ''u'') =
     (Inr \<lparr>stream = None\<rparr>, typeFetcher ''u'') \<and>
   list_all (passesThrough 300 308) [queriedRound 0 None, queriedRound 301 None] \<and>
   resolves 300 308 (queriedRound 200 (Some ''application/json'')) \<and>
   (\<exists>s'. runThread 300 308 True
            ([queriedRound 0 None, queriedRound 301 None] @
              queriedRound 200 (Some ''application/json'') # [quietRound])
            (typeFetcher ''u'') = Some s' \<and>
          m_statusCodePromise s' = [200] \<and>
          m_contentTypePromise s' = [''application/json''] \<and>
          sinkWrites s' = [])"
proof -
  have g: "getContent allOk CONTENT_TYPE None (newFetcher ''u'') =
      (Inr \<lparr>stream = None\<rparr>, typeFetcher ''u'')"
    by (simp add: eval_defs)
  have p: "list_all (passesThrough 300 308) [queriedRound 0 None, queriedRound 301 None]"
    by (simp add: passesThrough_def queriedRound_def quietRound_def)
  have r: "resolves 300 308 (queriedRound 200 (Some ''application/json''))"
    by (simp add: resolves_def queriedRound_def quietRound_def)
  note c6 = C6_metadata_only_stops_at_final_status[OF g p r, of "[quietRound]"]
  from c6 obtain s' where s': "runThread 300 308 True
            ([queriedRound 0 None, queriedRound 301 None] @
              queriedRound 200 (Some ''application/json'') # [quietRound])
            (typeFetcher ''u'') = Some s'"
    "m_statusCodePromise s' = [snd (responseCode (queriedRound 200 (Some ''application/json'')))]"
    "m_contentTypePromise s' =
       [case snd (contentTypeInfo (queriedRound 200 (Some ''application/json''))) of
          Some c \<Rightarrow> c | None \<Rightarrow> []]"
    by blast
  from c6 s'(1) have "sinkWrites s' = []" by blast
  with s' have "\<exists>s'. runThread 300 308 True
            ([queriedRound 0 None, queriedRound 301 None] @
              queriedRound 200 (Some ''application/json'') # [quietRound])
            (typeFetcher ''u'') = Some s' \<and>
          m_statusCodePromise s' = [200] \<and>
          m_contentTypePromise s' = [''application/json''] \<and>
          sinkWrites s' = []"
    by (simp add: queriedRound_def quietRound_def)
  with g p r show ?thesis by blast
qed

text \<open>
  C8 fails on one exit of the \<^verbatim>\<open>ENTIRE_BODY\<close> thread. When
  \<^verbatim>\<open>CurlMultiHandleWrapper::create\<close> gives no handle, the thread fulfils both
  promises and returns: the writer it made itself is not closed and \<^verbatim>\<open>m_done\<close>
  stays false. On every other exit (\<open>entireBodyThread_normal_exit\<close>) the local writer
  is closed once, a writer of the caller's is not, and \<^verbatim>\<open>m_done\<close> is set.
\<close>

theorem C8_handle_creation_failure_leaves_sink_open:
  "fst (getContent allOk ENTIRE_BODY None (newFetcher url)) = Inr \<lparr>stream = Some url\<rparr> \<and>
   m_streamWriter (bodyFetcher url) = Some (LocalWriter url) \<and>
   m_thread (bodyFetcher url) = Some (EntireBodyThread True) \<and>
   runThread rs re False its (bodyFetcher url) =
     Some ((bodyFetcher url)\<lparr>m_statusCodePromise := [0], m_contentTypePromise := ['''']\<rparr>) \<and>
   sinkCloseCalls ((bodyFetcher url)\<lparr>m_statusCodePromise := [0], m_contentTypePromise := ['''']\<rparr>) = 0 \<and>
   \<not> m_done ((bodyFetcher url)\<lparr>m_statusCodePromise := [0], m_contentTypePromise := ['''']\<rparr>)"
  by (simp add: eval_defs runThread_def entireBodyThread_def)

theorem C8_handle_creation_failure_leaves_sink_open_witness:
  "runThread 300 308 False [] (bodyFetcher ''http://example.com/a.txt'') =
     Some ((bodyFetcher ''http://example.com/a.txt'')
        \<lparr>m_statusCodePromise := [0], m_contentTypePromise := ['''']\<rparr>) \<and>
   sinkCloseCalls ((bodyFetcher ''http://example.com/a.txt'')
        \<lparr>m_statusCodePromise := [0], m_contentTypePromise := ['''']\<rparr>) = 0 \<and>
   \<not> m_done ((bodyFetcher ''http://example.com/a.txt'')
        \<lparr>m_statusCodePromise := [0], m_contentTypePromise := ['''']\<rparr>)"
  using C8_handle_creation_failure_leaves_sink_open[of "''http://example.com/a.txt''" 300 308 "[]"]
  by blast

section \<open>Properties of headerCallback\<close>

lemma digit_not_space: "isdigit c \<Longrightarrow> \<not> isspace c"
  by (auto simp: isdigit_def isspace_def)

lemma scanTokens_nonspace:
  "list_all (\<lambda>c. \<not> isspace c) a \<Longrightarrow> scanTokens w (a @ b) = scanTokens (w @ a) b"
  by (induction a arbitrary: w) simp_all

lemma scanTokens_space:
  "list_all isspace a \<Longrightarrow> scanTokens [] (a @ b) = scanTokens [] b"
  by (induction a) simp_all

lemma scanTokens_after_token:
  "w \<noteq> [] \<Longrightarrow> b = [] \<or> isspace (hd b) \<Longrightarrow> scanTokens w b = w # scanTokens [] b"
  by (cases b) auto

lemma tokens_extractString:
  "tokens line =
     (if fst (extractString line) = [] then []
      else fst (extractString line) # tokens (snd (extractString line)))"
proof -
  let ?b = "dropWhile isspace line"
  let ?tok = "takeWhile (\<lambda>c. \<not> isspace c) ?b"
  let ?r = "dropWhile (\<lambda>c. \<not> isspace c) ?b"
  have "scanTokens [] (takeWhile isspace line @ ?b) = scanTokens [] ?b"
    by (intro scanTokens_space) (simp add: list_all_iff, metis set_takeWhileD)
  then have 1: "tokens line = scanTokens [] ?b" by (simp add: tokens_def)
  have "scanTokens [] (?tok @ ?r) = scanTokens ([] @ ?tok) ?r"
    by (intro scanTokens_nonspace) (simp add: list_all_iff, metis set_takeWhileD)
  then have 2: "scanTokens [] ?b = scanTokens ?tok ?r" by simp
  have r: "?r = [] \<or> isspace (hd ?r)"
    using hd_dropWhile[of "\<lambda>c. \<not> isspace c" ?b] by auto
  have es: "extractString line = (?tok, ?r)" by (simp add: extractString_def Let_def)
  show ?thesis
  proof (cases "?tok = []")
    case True
    then have "?b = [] \<or> isspace (hd ?b)" by (cases ?b) (auto split: if_splits)
    moreover have "?b \<noteq> [] \<Longrightarrow> \<not> isspace (hd ?b)"
      using hd_dropWhile[of isspace line] by simp
    ultimately have bnil: "?b = []" by blast
    have tl: "tokens line = []" unfolding 1 bnil by simp
    show ?thesis by (simp only: es fst_conv True tl) simp
  next
    case False
    from scanTokens_after_token[OF False r] 1 2
    have "tokens line = ?tok # tokens ?r" by (simp add: tokens_def)
    then show ?thesis using False by (simp only: es fst_conv snd_conv) simp
  qed
qed

lemma secondToken_extractString:
  assumes "fst (extractString line) \<noteq> []"
  shows "secondToken line =
     (if fst (extractString (snd (extractString line))) = [] then None
      else Some (fst (extractString (snd (extractString line)))))"
proof -
  from assms tokens_extractString[of line]
  have 1: "tokens line = fst (extractString line) # tokens (snd (extractString line))" by simp
  show ?thesis
    unfolding secondToken_def 1
    by (subst tokens_extractString[of "snd (extractString line)"]) simp
qed


lemma digitsValue_foldl:
  "digitsValue acc xs = foldl (\<lambda>a c. 10 * a + digitValue c) acc (takeWhile isdigit xs)"
  by (induction xs arbitrary: acc) simp_all

lemma takeWhile_digit_token:
  "takeWhile isdigit (takeWhile (\<lambda>c. \<not> isspace c) xs) = takeWhile isdigit xs"
  by (induction xs) (auto simp: digit_not_space)

lemma leading_digits:
  "(takeWhile (\<lambda>c. \<not> isspace c) xs = [] \<or> \<not> isdigit (hd (takeWhile (\<lambda>c. \<not> isspace c) xs))) =
     (takeWhile isdigit xs = [])"
  "digitsValue 0 (takeWhile (\<lambda>c. \<not> isspace c) xs) = decimal (takeWhile isdigit xs)"
proof -
  show "(takeWhile (\<lambda>c. \<not> isspace c) xs = [] \<or> \<not> isdigit (hd (takeWhile (\<lambda>c. \<not> isspace c) xs))) =
     (takeWhile isdigit xs = [])"
    by (cases xs) (auto simp: digit_not_space)
  show "digitsValue 0 (takeWhile (\<lambda>c. \<not> isspace c) xs) = decimal (takeWhile isdigit xs)"
    by (simp add: digitsValue_foldl takeWhile_digit_token decimal_def)
qed

lemma numGetLong_token:
  assumes "b \<noteq> []" and "\<not> isspace (hd b)"
  shows "numGetLong b = leadingInteger (takeWhile (\<lambda>c. \<not> isspace c) b)"
proof -
  from assms obtain c cs where b: "b = c # cs" and c: "\<not> isspace c" by (cases b) auto
  show ?thesis
  proof (cases "c = CHR ''-'' \<or> c = CHR ''+''")
    case True
    then show ?thesis
      using c leading_digits[of cs]
      by (auto simp: b numGetLong_def leadingInteger_def Let_def)
  next
    case False
    have tw: "takeWhile (\<lambda>c. \<not> isspace c) b = c # takeWhile (\<lambda>c. \<not> isspace c) cs"
      using c by (simp add: b)
    from False have n: "numGetLong b =
        (if takeWhile isdigit b = [] then 0
         else max LONG_MIN (min LONG_MAX (int (decimal (takeWhile isdigit b)))))"
      by (simp add: b numGetLong_def Let_def)
    from False have l: "leadingInteger (takeWhile (\<lambda>c. \<not> isspace c) b) =
        (if takeWhile (\<lambda>c. \<not> isspace c) b = [] \<or>
            \<not> isdigit (hd (takeWhile (\<lambda>c. \<not> isspace c) b)) then 0
         else max LONG_MIN (min LONG_MAX
           (int (digitsValue 0 (takeWhile (\<lambda>c. \<not> isspace c) b)))))"
      unfolding tw by (simp add: leadingInteger_def Let_def)
    show ?thesis unfolding n l leading_digits ..
  qed
qed

lemma beginsWith_first_token:
  assumes "beginsWith p line" and "p \<noteq> []" and "\<not> isspace (hd p)"
  shows "fst (extractString line) \<noteq> []"
proof -
  from assms(1) have "take (length p) line = p" by (simp only: beginsWith_def)
  then have "line = p @ drop (length p) line" by (metis append_take_drop_id)
  with assms(2,3) obtain c cs where l: "line = c # cs" and c: "\<not> isspace c"
    by (cases p) auto
  then show ?thesis by (simp add: extractString_def)
qed

lemma extractLong_second_token:
  assumes "fst (extractString line) \<noteq> []" and "secondToken line = Some w"
  shows "extractLong g (snd (extractString line)) = leadingInteger w"
proof -
  let ?r = "snd (extractString line)"
  let ?b = "dropWhile isspace ?r"
  from assms secondToken_extractString[OF assms(1)]
  have w: "fst (extractString ?r) = w" "w \<noteq> []" by (auto split: if_splits)
  have fw: "fst (extractString ?r) = takeWhile (\<lambda>c. \<not> isspace c) ?b"
    by (simp add: extractString_def Let_def)
  with w have ne: "?b \<noteq> []" by (metis takeWhile.simps(1))
  then have ns: "\<not> isspace (hd ?b)" by (rule hd_dropWhile)
  have "extractLong g ?r = (if ?b = [] then g else numGetLong ?b)"
    by (simp only: extractLong_def Let_def)
  then have "extractLong g ?r = numGetLong ?b" using ne by (simp only: if_False)
  also have "\<dots> = leadingInteger (takeWhile (\<lambda>c. \<not> isspace c) ?b)"
    using ne ns by (rule numGetLong_token)
  finally show ?thesis using w fw by simp
qed

lemma value_second_token:
  assumes "fst (extractString line) \<noteq> []"
  shows "fst (extractString (snd (extractString line))) =
           (case secondToken line of Some v \<Rightarrow> v | None \<Rightarrow> [])"
  using secondToken_extractString[OF assms] by simp

lemma beginsWith_content_type_not_http:
  assumes "beginsWith ''content-type'' line"
  shows "\<not> beginsWith ''http'' line"
proof -
  from assms have "take (length ''content-type'') line = ''content-type''"
    by (simp only: beginsWith_def)
  then obtain rest where "line = ''content-type'' @ rest" by (metis append_take_drop_id)
  then show ?thesis by (simp add: beginsWith_def)
qed

lemma headerCallback_case_insensitive:
  assumes "map tolower line1 = map tolower line2"
  shows "headerCallback g line1 userData = headerCallback g line2 userData"
proof -
  from assms have len: "length line1 = length line2" by (rule map_eq_imp_length_eq)
  show ?thesis by (simp only: headerCallback_def assms len)
qed

lemma headerCallback_status_line:
  assumes "beginsWith ''http'' (map tolower line)"
  shows "\<exists>c. headerCallback g line (Some s) = (length line, Some (s\<lparr>m_lastStatusCode := c\<rparr>)) \<and>
           (\<forall>w. secondToken (map tolower line) = Some w \<longrightarrow> c = leadingInteger w)"
proof -
  let ?L = "map tolower line"
  let ?c = "extractLong g (snd (extractString ?L))"
  have ne: "fst (extractString ?L) \<noteq> []"
    using assms by (rule beginsWith_first_token) (simp_all add: isspace_def)
  have "headerCallback g line (Some s) = (length line, Some (s\<lparr>m_lastStatusCode := ?c\<rparr>))"
    using assms by (simp add: headerCallback_def)
  moreover have "\<forall>w. secondToken ?L = Some w \<longrightarrow> ?c = leadingInteger w"
    using extractLong_second_token[OF ne] by blast
  ultimately show ?thesis by blast
qed

lemma headerCallback_content_type_line:
  assumes "beginsWith ''content-type'' (map tolower line)"
  shows "headerCallback g line (Some s) =
           (length line,
            Some (s\<lparr>m_lastContentType := takeWhile (\<lambda>c. c \<noteq> CHR '';'')
              (case secondToken (map tolower line) of Some v \<Rightarrow> v | None \<Rightarrow> [])\<rparr>))"
proof -
  let ?L = "map tolower line"
  have ne: "fst (extractString ?L) \<noteq> []"
    using assms by (rule beginsWith_first_token) (simp_all add: isspace_def)
  have nh: "\<not> beginsWith ''http'' ?L"
    using assms by (rule beginsWith_content_type_not_http)
  have "headerCallback g line (Some s) =
      (length line,
       Some (s\<lparr>m_lastContentType := takeWhile (\<lambda>c. c \<noteq> CHR '';'')
         (fst (extractString (snd (extractString ?L))))\<rparr>))"
    using assms nh by (simp add: headerCallback_def Let_def)
  then show ?thesis by (simp only: value_second_token[OF ne])
qed

lemma headerCallback_other_line:
  "\<not> beginsWith ''http'' (map tolower line) \<Longrightarrow>
   \<not> beginsWith ''content-type'' (map tolower line) \<Longrightarrow>
   headerCallback g line (Some s) = (length line, Some s)"
  by (simp add: headerCallback_def)

text \<open>The definitions a concrete header line is evaluated with.\<close>

lemmas header_defs = headerCallback_def beginsWith_def tolower_def extractString_def
  extractLong_def numGetLong_def isspace_def isdigit_def decimal_def digitValue_def
  LONG_MAX_def LONG_MIN_def newFetcher_def

text \<open>
  C5 as stated fails. The value token \<open>Text/Plain\<close> is stored as \<open>text/plain\<close>. In
  \<open>Content-Type:text/plain\<close> no white space separates the field name from the value,
  and the content type stored is empty, also over an earlier value. The integer
  99999999999999999999 after the version token is stored as the largest
  \<^verbatim>\<open>long\<close>, and after the version token of \<open>HTTP/1.1 abc\<close>, where no integer
  stands, the status code stored over an earlier 200 is 0.
\<close>

theorem C5_counterexample:
  "headerCallback 7 ''Content-Type: Text/Plain'' (Some (newFetcher ''u'')) =
     (24, Some ((newFetcher ''u'')\<lparr>m_lastContentType := ''text/plain''\<rparr>)) \<and>
   ''text/plain'' \<noteq> ''Text/Plain'' \<and>
   headerCallback 7 ''Content-Type:text/plain''
       (Some ((newFetcher ''u'')\<lparr>m_lastContentType := ''audio/mpeg''\<rparr>)) =
     (23, Some ((newFetcher ''u'')\<lparr>m_lastContentType := []\<rparr>)) \<and>
   headerCallback 7 ''HTTP/1.1 99999999999999999999 OK'' (Some (newFetcher ''u'')) =
     (32, Some ((newFetcher ''u'')\<lparr>m_lastStatusCode := 9223372036854775807\<rparr>)) \<and>
   headerCallback 7 ''HTTP/1.1 abc'' (Some ((newFetcher ''u'')\<lparr>m_lastStatusCode := 200\<rparr>)) =
     (12, Some ((newFetcher ''u'')\<lparr>m_lastStatusCode := 0\<rparr>))"
  by (simp add: header_defs)

text \<open>
  C5, amended. \<^verbatim>\<open>headerCallback\<close> lower-cases the line before it looks at it, so
  what it does depends on the line only up to the case of its letters, and what it
  stores is in lower case. The tokens of the lower-cased line are its runs of
  characters between white space. A line that begins with \<open>http\<close> changes nothing but
  \<^verbatim>\<open>m_lastStatusCode\<close>; when the line has a second token, the status code becomes the
  integer that token starts with (an optional sign and decimal digits, brought into
  the range of \<^verbatim>\<open>long\<close>), and 0 when the token starts with no integer. A line that
  begins with \<open>content-type\<close> sets \<^verbatim>\<open>m_lastContentType\<close> to the second token without
  anything from its first \<open>;\<close> on, to the empty string when the line has no second
  token, and changes nothing else. A line that begins with neither changes nothing.
  In each case the count returned is the length of the line.
\<close>

theorem C5_header_lines:
  "(map tolower line1 = map tolower line2 \<longrightarrow>
      headerCallback g line1 userData = headerCallback g line2 userData) \<and>
   (beginsWith ''http'' (map tolower line) \<longrightarrow>
      (\<exists>c. headerCallback g line (Some s) =
              (length line, Some (s\<lparr>m_lastStatusCode := c\<rparr>)) \<and>
           (\<forall>w. secondToken (map tolower line) = Some w \<longrightarrow> c = leadingInteger w))) \<and>
   (beginsWith ''content-type'' (map tolower line) \<longrightarrow>
      headerCallback g line (Some s) =
        (length line,
         Some (s\<lparr>m_lastContentType := takeWhile (\<lambda>c. c \<noteq> CHR '';'')
           (case secondToken (map tolower line) of Some v \<Rightarrow> v | None \<Rightarrow> [])\<rparr>))) \<and>
   (\<not> beginsWith ''http'' (map tolower line) \<and>
    \<not> beginsWith ''content-type'' (map tolower line) \<longrightarrow>
      headerCallback g line (Some s) = (length line, Some s))"
  using headerCallback_case_insensitive[of line1 line2 g userData]
    headerCallback_status_line[of line g s]
    headerCallback_content_type_line[of line g s]
    headerCallback_other_line[of line g s]
  by blast

text \<open>The lines \<open>HTTP/1.1 200 OK\<close>, \<open>Content-Type: text/plain; charset=utf-8\<close>
  (which gives \<open>text/plain\<close>) and \<open>Content-Length: 5\<close>, and a content-type line
  written in two cases.\<close>

theorem C5_header_lines_witness:
  "map tolower ''CONTENT-TYPE: Text/Plain'' = map tolower ''content-type: text/plain'' \<and>
   headerCallback 7 ''CONTENT-TYPE: Text/Plain'' (Some (newFetcher ''u'')) =
     headerCallback 7 ''content-type: text/plain'' (Some (newFetcher ''u'')) \<and>
   beginsWith ''http'' (map tolower ''HTTP/1.1 200 OK'') \<and>
   secondToken (map tolower ''HTTP/1.1 200 OK'') = Some ''200'' \<and>
   headerCallback 7 ''HTTP/1.1 200 OK'' (Some (newFetcher ''u'')) =
     (15, Some ((newFetcher ''u'')\<lparr>m_lastStatusCode := 200\<rparr>)) \<and>
   beginsWith ''content-type'' (map tolower ''Content-Type: text/plain; charset=utf-8'') \<and>
   secondToken (map tolower ''Content-Type: text/plain; charset=utf-8'') = Some ''text/plain;'' \<and>
   headerCallback 7 ''Content-Type: text/plain; charset=utf-8'' (Some (newFetcher ''u'')) =
     (39, Some ((newFetcher ''u'')\<lparr>m_lastContentType := ''text/plain''\<rparr>)) \<and>
   \<not> beginsWith ''http'' (map tolower ''Content-Length: 5'') \<and>
   \<not> beginsWith ''content-type'' (map tolower ''Content-Length: 5'') \<and>
   headerCallback 7 ''Content-Length: 5'' (Some (newFetcher ''u'')) =
     (17, Some (newFetcher ''u''))"
proof -
  have ci: "map tolower ''CONTENT-TYPE: Text/Plain'' = map tolower ''content-type: text/plain''"
    by (simp add: tolower_def)
  have sb: "beginsWith ''http'' (map tolower ''HTTP/1.1 200 OK'')"
    by (simp add: beginsWith_def tolower_def)
  have st: "secondToken (map tolower ''HTTP/1.1 200 OK'') = Some ''200''"
    by (simp add: secondToken_def tokens_def tolower_def isspace_def)
  have li: "leadingInteger ''200'' = 200"
    by (simp add: leadingInteger_def isdigit_def digitValue_def LONG_MAX_def LONG_MIN_def)
  have cb: "beginsWith ''content-type'' (map tolower ''Content-Type: text/plain; charset=utf-8'')"
    by (simp add: beginsWith_def tolower_def)
  have ct: "secondToken (map tolower ''Content-Type: text/plain; charset=utf-8'') =
      Some ''text/plain;''"
    by (simp add: secondToken_def tokens_def tolower_def isspace_def)
  have ol1: "\<not> beginsWith ''http'' (map tolower ''Content-Length: 5'')"
    by (simp add: beginsWith_def tolower_def)
  have ol2: "\<not> beginsWith ''content-type'' (map tolower ''Content-Length: 5'')"
    by (simp add: beginsWith_def tolower_def)
  have 1: "headerCallback 7 ''CONTENT-TYPE: Text/Plain'' (Some (newFetcher ''u'')) =
     headerCallback 7 ''content-type: text/plain'' (Some (newFetcher ''u''))"
    by (rule C5_header_lines[THEN conjunct1, THEN mp, OF ci])
  note status = C5_header_lines[where line = "''HTTP/1.1 200 OK''" and g = 7
      and s = "newFetcher ''u''", THEN conjunct2, THEN conjunct1, THEN mp, OF sb]
  then obtain c where c: "headerCallback 7 ''HTTP/1.1 200 OK'' (Some (newFetcher ''u'')) =
      (length ''HTTP/1.1 200 OK'', Some ((newFetcher ''u'')\<lparr>m_lastStatusCode := c\<rparr>))"
    and cw: "\<forall>w. secondToken (map tolower ''HTTP/1.1 200 OK'') = Some w \<longrightarrow> c = leadingInteger w"
    by (elim exE conjE)
  from cw[THEN spec, THEN mp, OF st] li have "c = 200" by (simp only:)
  with c have 2: "headerCallback 7 ''HTTP/1.1 200 OK'' (Some (newFetcher ''u'')) =
     (15, Some ((newFetcher ''u'')\<lparr>m_lastStatusCode := 200\<rparr>))" by simp
  note ctype = C5_header_lines[where line = "''Content-Type: text/plain; charset=utf-8''"
      and g = 7 and s = "newFetcher ''u''",
      THEN conjunct2, THEN conjunct2, THEN conjunct1, THEN mp, OF cb]
  have 3: "headerCallback 7 ''Content-Type: text/plain; charset=utf-8''
      (Some (newFetcher ''u'')) =
     (39, Some ((newFetcher ''u'')\<lparr>m_lastContentType := ''text/plain''\<rparr>))"
    using ctype unfolding ct by simp
  note other = C5_header_lines[where line = "''Content-Length: 5''" and g = 7
      and s = "newFetcher ''u''",
      THEN conjunct2, THEN conjunct2, THEN conjunct2, THEN mp, OF conjI[OF ol1 ol2]]
  have 4: "headerCallback 7 ''Content-Length: 5'' (Some (newFetcher ''u'')) =
      (17, Some (newFetcher ''u''))"
    using other by simp
  show ?thesis by (intro conjI) (rule ci 1 sb st 2 cb ct 3 ol1 ol2 4)+
qed

end
